theory Spec2Isabelle
  imports Main "HOL-Library.Extended_Nat"
begin

section \<open>JavaScript numbers used by the library\<close>

text \<open>
  The numbers of the library are delays and time stamps in milliseconds, a growth factor and
  a retry count. In the options and in the retry operation a finite number is a rational,
  and the one special value the code itself names, \<^verbatim>\<open>Infinity\<close>, is added where the code
  uses it (the defaults of \<^verbatim>\<open>maxTimeout\<close> and \<^verbatim>\<open>maxRetryTime\<close>, and the test
  \<^verbatim>\<open>options.retries === Infinity\<close>); \<^verbatim>\<open>NaN\<close> and negative infinity are no option
  values. A retry count is a natural number or \<^verbatim>\<open>Infinity\<close> (\<^typ>\<open>enat\<close>).
  The delay of one entry is given twice: with exact arithmetic (\<open>createTimeout\<close>, which
  the sequence generator and the retry operation use, where only the number and the order of
  the delays and their bound matter), and as the host computes it, in IEEE 754 double
  precision (\<open>createTimeout_double\<close>), for what is said about the value of a delay.
\<close>

datatype jsnum = Fin rat | PInf

fun js_le :: "jsnum \<Rightarrow> jsnum \<Rightarrow> bool" where
  "js_le (Fin a) (Fin b) = (a \<le> b)"
| "js_le (Fin a) PInf = True"
| "js_le PInf (Fin b) = False"
| "js_le PInf PInf = True"

fun js_gt :: "jsnum \<Rightarrow> jsnum \<Rightarrow> bool" where
  "js_gt (Fin a) (Fin b) = (a > b)"
| "js_gt (Fin a) PInf = False"
| "js_gt PInf (Fin b) = True"
| "js_gt PInf PInf = False"

fun js_ge :: "jsnum \<Rightarrow> jsnum \<Rightarrow> bool" where
  "js_ge (Fin a) (Fin b) = (a \<ge> b)"
| "js_ge (Fin a) PInf = False"
| "js_ge PInf (Fin b) = True"
| "js_ge PInf PInf = True"

text \<open>\<^verbatim>\<open>Math.min(timeout, maxTimeout)\<close> for a finite first argument.\<close>

fun Math_min :: "rat \<Rightarrow> jsnum \<Rightarrow> rat" where
  "Math_min t (Fin m) = min t m"
| "Math_min t PInf = t"

text \<open>
  \<^verbatim>\<open>Math.round\<close> rounds to the nearest integer, a tie going up: it is
  \<open>\<lfloor>x + 1/2\<rfloor>\<close>, which is \<^const>\<open>round\<close>.
\<close>

definition Math_round :: "rat \<Rightarrow> rat" where
  "Math_round x = of_int (round x)"

text \<open>A value that was thrown.\<close>

datatype exn = Throw_Error string | Throw_TypeError

section \<open>Options\<close>

text \<open>
  \<^verbatim>\<open>CreateTimeoutOptions\<close>, \<^verbatim>\<open>TimeoutsOptions\<close> and \<^verbatim>\<open>OperationOptions\<close> extend one
  another and every field is optional; \<^verbatim>\<open>operation\<close> hands its options record on to
  \<^verbatim>\<open>timeouts\<close>, which hands the merged record on to \<^verbatim>\<open>createTimeout\<close>. One record with
  all the fields, each absent (\<open>None\<close>) or present, stands for the three.
\<close>

record options =
  factor :: "rat option"
  minTimeout :: "rat option"
  maxTimeout :: "jsnum option"
  randomize :: "bool option"
  retries :: "enat option"
  forever :: "bool option"
  maxRetryTime :: "jsnum option"

definition no_options :: options where
  "no_options = \<lparr>factor = None, minTimeout = None, maxTimeout = None, randomize = None,
     retries = None, forever = None, maxRetryTime = None\<rparr>"

text \<open>The object spread \<^verbatim>\<open>{...a, ...b}\<close>: a field of \<open>b\<close> that is present wins.\<close>

definition over :: "'a option \<Rightarrow> 'a option \<Rightarrow> 'a option" where
  "over a b = (case b of None \<Rightarrow> a | Some v \<Rightarrow> Some v)"

definition spread :: "options \<Rightarrow> options \<Rightarrow> options" where
  "spread a b =
     \<lparr>factor = over (factor a) (factor b),
      minTimeout = over (minTimeout a) (minTimeout b),
      maxTimeout = over (maxTimeout a) (maxTimeout b),
      randomize = over (randomize a) (randomize b),
      retries = over (retries a) (retries b),
      forever = over (forever a) (forever b),
      maxRetryTime = over (maxRetryTime a) (maxRetryTime b)\<rparr>"

text \<open>Reading a field of a merged record; the default is the value of a field that no
  side of the spread supplied.\<close>

definition field :: "'a \<Rightarrow> 'a option \<Rightarrow> 'a" where
  "field d x = (case x of None \<Rightarrow> d | Some v \<Rightarrow> v)"

section \<open>The timeout sequence generator\<close>

definition createTimeout_defaults :: options where
  "createTimeout_defaults =
     no_options\<lparr>factor := Some 2, minTimeout := Some (1 * 1000), maxTimeout := Some PInf,
       randomize := Some False\<rparr>"

text \<open>
  \<^verbatim>\<open>createTimeout(attempt, params)\<close>, with exact arithmetic. The value that
  \<^verbatim>\<open>Math.random()\<close> returns, a number in \<open>[0, 1)\<close>, is the argument \<open>rnd\<close>; it is read
  only when \<^verbatim>\<open>randomize\<close> is set. The same function in the arithmetic of the host is
  \<open>createTimeout_double\<close> below; the two agree where no operation rounds.
\<close>

definition createTimeout :: "nat \<Rightarrow> options \<Rightarrow> rat \<Rightarrow> rat" where
  "createTimeout attempt params rnd =
     (let options = spread createTimeout_defaults params;
          random = (if field False (randomize options) then rnd + 1 else 1);
          timeout = Math_round (random * max (field 1000 (minTimeout options)) 1
                                  * field 2 (factor options) ^ attempt);
          timeout = Math_min timeout (field PInf (maxTimeout options))
      in timeout)"

definition timeouts_defaults :: options where
  "timeouts_defaults =
     no_options\<lparr>retries := Some 10, minTimeout := Some (1 * 1000), maxTimeout := Some PInf,
       forever := Some False\<rparr>"

text \<open>
  The loop \<^verbatim>\<open>for (let i = 0; i < options.retries; i++) timeouts.push(createTimeout(i, options))\<close>.
  With \<^verbatim>\<open>retries = Infinity\<close> it has no exit (the host runs it until memory is used
  up), so it is a partial function: \<open>None\<close> is a loop that returns nothing.
\<close>

partial_function (option) timeouts_loop ::
  "nat \<Rightarrow> enat \<Rightarrow> (nat \<Rightarrow> rat) \<Rightarrow> rat list \<Rightarrow> rat list option" where
  "timeouts_loop i n mk ts =
     (if enat i < n then timeouts_loop (i + 1) n mk (ts @ [mk i]) else Some ts)"

declare timeouts_loop.simps [code]

text \<open>
  \<^verbatim>\<open>timeouts(params)\<close>. \<open>rnd i\<close> is what \<^verbatim>\<open>Math.random()\<close> returns in the call
  \<^verbatim>\<open>createTimeout(i, options)\<close>. The result is \<open>None\<close> when the call returns nothing,
  \<open>Some (Inl e)\<close> when it throws \<open>e\<close>, and \<open>Some (Inr ts)\<close> when it returns \<open>ts\<close>.
\<close>

definition timeouts :: "options \<Rightarrow> (nat \<Rightarrow> rat) \<Rightarrow> (exn + rat list) option" where
  "timeouts params rnd =
     (let options = spread timeouts_defaults params in
      if js_gt (Fin (field 1000 (minTimeout options))) (field PInf (maxTimeout options))
      then Some (Inl (Throw_Error ''minTimeout is greater than maxTimeout''))
      else
        (case timeouts_loop 0 (field 10 (retries options))
                (\<lambda>i. createTimeout i options (rnd i)) [] of
           None \<Rightarrow> None
         | Some ts \<Rightarrow>
             (if field False (forever options) \<and> length ts = 0
              then (case field 10 (retries options) of
                      enat n \<Rightarrow> Some (Inr (sort (ts @ [createTimeout n options (rnd n)])))
                    | \<infinity> \<Rightarrow> None)
              else Some (Inr (sort ts)))))"

section \<open>The delay in double precision\<close>

text \<open>
  A value of the type \<^verbatim>\<open>number\<close>: a finite double, given by the rational it stands for,
  an infinity or \<^verbatim>\<open>NaN\<close>. The zero with a minus sign is not told apart from 0; no
  operation below divides.
\<close>

datatype binary64 = Finite rat | PosInfinity | NegInfinity | NotANumber

text \<open>
  Rounding to the nearest double, a tie going to the even significand. Around \<open>q\<close> the
  doubles are the multiples of \<open>quantum q = 2^k / 2^1074\<close>, where \<open>k\<close> is the least
  number with \<open>\<bar>q\<bar> < 2^53 * 2^k / 2^1074\<close> (0 for the subnormal numbers, 2045 for the
  largest ones). A number of magnitude \<open>2^1024 - 2^970\<close> or more, half a step above the
  largest double, rounds to an infinity.
\<close>

definition binade :: "rat \<Rightarrow> nat" where
  "binade q =
     (case find (\<lambda>k. \<bar>q\<bar> * 2 ^ 1074 < 2 ^ (53 + k)) [0..<2046] of
        Some k \<Rightarrow> k
      | None \<Rightarrow> 2045)"

definition quantum :: "rat \<Rightarrow> rat" where
  "quantum q = 2 ^ binade q / 2 ^ 1074"

definition round_half_even :: "rat \<Rightarrow> int" where
  "round_half_even s =
     (let f = \<lfloor>s\<rfloor>; r = s - of_int f
      in if r < 1 / 2 then f else if 1 / 2 < r then f + 1 else if even f then f else f + 1)"

definition fl :: "rat \<Rightarrow> binary64" where
  "fl q =
     (if 2 ^ 1024 - 2 ^ 970 \<le> \<bar>q\<bar> then (if 0 < q then PosInfinity else NegInfinity)
      else Finite (of_int (round_half_even (q / quantum q)) * quantum q))"

text \<open>
  The product of two numbers, rounded; an infinity times 0 is \<^verbatim>\<open>NaN\<close>.
\<close>

fun mul64 :: "binary64 \<Rightarrow> binary64 \<Rightarrow> binary64" where
  "mul64 NotANumber y = NotANumber"
| "mul64 x NotANumber = NotANumber"
| "mul64 (Finite a) (Finite b) = fl (a * b)"
| "mul64 (Finite a) PosInfinity =
     (if a = 0 then NotANumber else if 0 < a then PosInfinity else NegInfinity)"
| "mul64 (Finite a) NegInfinity =
     (if a = 0 then NotANumber else if 0 < a then NegInfinity else PosInfinity)"
| "mul64 PosInfinity (Finite b) =
     (if b = 0 then NotANumber else if 0 < b then PosInfinity else NegInfinity)"
| "mul64 NegInfinity (Finite b) =
     (if b = 0 then NotANumber else if 0 < b then NegInfinity else PosInfinity)"
| "mul64 PosInfinity PosInfinity = PosInfinity"
| "mul64 PosInfinity NegInfinity = NegInfinity"
| "mul64 NegInfinity PosInfinity = NegInfinity"
| "mul64 NegInfinity NegInfinity = PosInfinity"

text \<open>
  \<^verbatim>\<open>Math.round\<close> returns the nearest integer, a tie going up; every such integer is a
  double. \<^verbatim>\<open>Math.min(timeout, maxTimeout)\<close> returns \<^verbatim>\<open>NaN\<close> for \<^verbatim>\<open>NaN\<close>.
\<close>

fun round64 :: "binary64 \<Rightarrow> binary64" where
  "round64 (Finite x) = Finite (of_int (round x))"
| "round64 x = x"

fun min64 :: "binary64 \<Rightarrow> jsnum \<Rightarrow> binary64" where
  "min64 NotANumber m = NotANumber"
| "min64 NegInfinity m = NegInfinity"
| "min64 PosInfinity (Fin m) = Finite m"
| "min64 PosInfinity PInf = PosInfinity"
| "min64 (Finite t) (Fin m) = Finite (min t m)"
| "min64 (Finite t) PInf = Finite t"

text \<open>
  A rational that is a double.
\<close>

definition representable :: "rat \<Rightarrow> bool" where
  "representable q = (fl q = Finite q)"

text \<open>
  \<^verbatim>\<open>createTimeout(attempt, params)\<close> as the host computes it. \<^verbatim>\<open>Math.pow\<close> is a
  function of the host whose precision the language leaves to the implementation, so it is
  the parameter \<open>Math_pow\<close>; its second argument is the attempt index. \<open>rnd\<close> is what
  \<^verbatim>\<open>Math.random()\<close> returns, and \<^verbatim>\<open>Math.random() + 1\<close> is rounded. The options hold
  the values of the doubles that were passed.
\<close>

definition createTimeout_double ::
  "(rat \<Rightarrow> nat \<Rightarrow> binary64) \<Rightarrow> nat \<Rightarrow> options \<Rightarrow> rat \<Rightarrow> binary64" where
  "createTimeout_double Math_pow attempt params rnd =
     (let options = spread createTimeout_defaults params;
          random = (if field False (randomize options) then fl (rnd + 1) else Finite 1);
          timeout = round64
                      (mul64 (mul64 random (Finite (max (field 1000 (minTimeout options)) 1)))
                             (Math_pow (field 2 (factor options)) attempt));
          timeout = min64 timeout (field PInf (maxTimeout options))
      in timeout)"

text \<open>
  A \<^verbatim>\<open>Math.pow\<close> that returns the double nearest to the power: exact where the power is
  a double, an infinity where it is too large.
\<close>

definition correctly_rounded_pow :: "rat \<Rightarrow> nat \<Rightarrow> binary64" where
  "correctly_rounded_pow x n = fl (x ^ n)"

section \<open>The retry operation\<close>

text \<open>
  An \<^verbatim>\<open>Error\<close> object: its message, and a number that tells two objects with the same
  message apart.
\<close>

datatype error = Error (message: string) (ident: nat)

text \<open>
  Callbacks of the caller (the work function \<^verbatim>\<open>fn\<close>, the watchdog
  \<^verbatim>\<open>operationTimeoutFn\<close>) are opaque: a callback is a name, and calling it with the attempt
  number is recorded in the trace of the run.
\<close>

type_synonym callback = nat

datatype call = Call callback int

text \<open>
  The three closures the class passes to \<^verbatim>\<open>setTimeout\<close>:
  in \<^verbatim>\<open>attempt\<close>, \<^verbatim>\<open>() => timeoutOptions.operationTimeoutFn(this.attempts)\<close>;
  in \<^verbatim>\<open>retry\<close>, the \<^verbatim>\<open>resolve\<close> of the awaited promise, and
  \<^verbatim>\<open>() => self.operationTimeoutFn!(this.attempts)\<close>.
\<close>

datatype closure = AttemptWatchdog callback | Resolve | RetryWatchdog

text \<open>
  The timers of the host: the pending ones, a map from the handle of a timer to its closure
  and the delay that was passed (\<open>None\<close> is \<^verbatim>\<open>undefined\<close>), and the next handle.
  Handles count up from 1, so a handle is never falsy.
\<close>

record runtime =
  pending :: "nat \<rightharpoonup> closure \<times> rat option"
  next_handle :: nat
  trace :: "call list"

definition runtime0 :: runtime where
  "runtime0 = \<lparr>pending = Map.empty, next_handle = 1, trace = []\<rparr>"

definition setTimeout :: "closure \<Rightarrow> rat option \<Rightarrow> runtime \<Rightarrow> nat \<times> runtime" where
  "setTimeout c delay rt =
     (next_handle rt,
      rt\<lparr>pending := (pending rt)(next_handle rt \<mapsto> (c, delay)),
         next_handle := next_handle rt + 1\<rparr>)"

text \<open>\<^verbatim>\<open>clearTimeout(h)\<close>; \<^verbatim>\<open>clearTimeout(undefined)\<close> does nothing.\<close>

definition clearTimeout :: "nat option \<Rightarrow> runtime \<Rightarrow> runtime" where
  "clearTimeout h rt =
     (case h of None \<Rightarrow> rt
      | Some i \<Rightarrow> rt\<lparr>pending := (pending rt)(i := None)\<rparr>)"

text \<open>The test \<^verbatim>\<open>if (x)\<close> on a value of type \<^verbatim>\<open>number | undefined\<close>.\<close>

definition truthy :: "'a::zero option \<Rightarrow> bool" where
  "truthy x = (case x of None \<Rightarrow> False | Some v \<Rightarrow> v \<noteq> 0)"

text \<open>
  The fields of \<^verbatim>\<open>RetryOperation\<close>. \<open>options_forever\<close> and \<open>options_maxRetryTime\<close> are
  \<^verbatim>\<open>this.options\<close>; \<open>this_timeouts\<close> and \<open>this_maxRetryTime\<close> are \<^verbatim>\<open>this.timeouts\<close> and
  \<^verbatim>\<open>this.maxRetryTime\<close>. The arrays \<^verbatim>\<open>originalTimeouts\<close>, \<^verbatim>\<open>timeouts\<close> and
  \<^verbatim>\<open>cachedTimeouts\<close> are three objects (the constructor and \<^verbatim>\<open>reset\<close> copy with
  \<^verbatim>\<open>slice\<close>), so each is a list of its own.
\<close>

record retry_operation =
  attempts :: int
  errors :: "error list"
  options_forever :: bool
  options_maxRetryTime :: jsnum
  originalTimeouts :: "rat list"
  this_timeouts :: "rat list"
  timeout :: "nat option"
  operationTimeout :: "rat option"
  operationTimeoutFn :: "callback option"
  operationStart :: "int option"
  timer :: "nat option"
  cachedTimeouts :: "rat list option"
  this_maxRetryTime :: jsnum
  fn :: "callback option"

text \<open>\<^verbatim>\<open>new RetryOperation(timeouts, {forever, maxRetryTime})\<close>\<close>

definition new_RetryOperation :: "rat list \<Rightarrow> bool \<Rightarrow> jsnum \<Rightarrow> retry_operation" where
  "new_RetryOperation ts forever_opt maxRetryTime_opt =
     \<lparr>attempts = 1,
      errors = [],
      options_forever = forever_opt,
      options_maxRetryTime = maxRetryTime_opt,
      originalTimeouts = ts,
      this_timeouts = ts,
      timeout = None,
      operationTimeout = None,
      operationTimeoutFn = None,
      operationStart = None,
      timer = None,
      cachedTimeouts = (if forever_opt then Some ts else None),
      this_maxRetryTime = maxRetryTime_opt,
      fn = None\<rparr>"

text \<open>
  \<^verbatim>\<open>operation(options)\<close>: \<^verbatim>\<open>options.forever || options.retries === Infinity\<close> and
  \<^verbatim>\<open>options.maxRetryTime || Infinity\<close>, where \<^verbatim>\<open>undefined\<close> and \<open>0\<close> are falsy.
\<close>

definition operation :: "options \<Rightarrow> (nat \<Rightarrow> rat) \<Rightarrow> (exn + retry_operation) option" where
  "operation opts rnd =
     (case timeouts opts rnd of
        None \<Rightarrow> None
      | Some (Inl e) \<Rightarrow> Some (Inl e)
      | Some (Inr ts) \<Rightarrow>
          Some (Inr (new_RetryOperation ts
            (field False (forever opts) \<or> retries opts = Some \<infinity>)
            (case maxRetryTime opts of
               None \<Rightarrow> PInf
             | Some (Fin m) \<Rightarrow> (if m = 0 then PInf else Fin m)
             | Some PInf \<Rightarrow> PInf))))"

text \<open>A method works on the object and on the timers of the host.\<close>

type_synonym world = "retry_operation \<times> runtime"

definition reset :: "world \<Rightarrow> world" where
  "reset w =
     (case w of (this, rt) \<Rightarrow>
        (this\<lparr>attempts := 1, this_timeouts := originalTimeouts this\<rparr>, rt))"

definition stop :: "world \<Rightarrow> world" where
  "stop w =
     (case w of (this, rt) \<Rightarrow>
        (let rt = (if truthy (timeout this) then clearTimeout (timeout this) rt else rt);
             rt = (if truthy (timer this) then clearTimeout (timer this) rt else rt)
         in (this\<lparr>this_timeouts := [], cachedTimeouts := None\<rparr>, rt)))"

text \<open>
  \<^verbatim>\<open>attempt(fn, timeoutOptions?)\<close>; \<open>now\<close> is \<^verbatim>\<open>new Date().getTime()\<close>.
  \<^verbatim>\<open>timeoutOptions\<close> is absent or holds the optional \<^verbatim>\<open>timeout\<close> and the callback.
  The handle that \<^verbatim>\<open>setTimeout\<close> returns here is dropped.
\<close>

definition attempt :: "callback \<Rightarrow> (rat option \<times> callback) option \<Rightarrow> int \<Rightarrow> world \<Rightarrow> world" where
  "attempt f timeoutOptions now w =
     (case w of (this, rt) \<Rightarrow>
        (let this = this\<lparr>fn := Some f, operationStart := Some now\<rparr>;
             rt = rt\<lparr>trace := trace rt @ [Call f (attempts this)]\<rparr>
         in (case timeoutOptions of
               None \<Rightarrow> (this, rt)
             | Some (t, cb) \<Rightarrow>
                 (if truthy t
                  then (this\<lparr>operationTimeout := t, operationTimeoutFn := Some cb\<rparr>,
                        snd (setTimeout (AttemptWatchdog cb) t rt))
                  else (this, rt)))))"

definition succeed :: "world \<Rightarrow> world" where
  "succeed w = (case w of (this, rt) \<Rightarrow> (this, clearTimeout (timeout this) rt))"

text \<open>
  \<^verbatim>\<open>retry(err)\<close> is an \<^verbatim>\<open>async\<close> method with one \<^verbatim>\<open>await\<close>. \<open>retry_begin\<close> is the
  part before it: it returns \<open>Return False\<close>, or \<open>Await h\<close> when the method is suspended
  on the timer \<open>h\<close>. \<open>retry_resume\<close> is the part that runs once that timer has fired.
  \<open>now\<close> is \<^verbatim>\<open>new Date().getTime()\<close>. An \<^verbatim>\<open>Error\<close> object is truthy, so the test
  \<^verbatim>\<open>err &&\<close> is true.
\<close>

datatype suspension = Return bool | Await nat

definition budget_exceeded :: "int \<Rightarrow> retry_operation \<Rightarrow> bool" where
  "budget_exceeded now this =
     (truthy (operationStart this) \<and>
      (case operationStart this of
         None \<Rightarrow> False
       | Some t0 \<Rightarrow> js_ge (Fin (of_int (now - t0))) (this_maxRetryTime this)))"

definition timeout_error :: error where
  "timeout_error = Error ''RetryOperation timeout occurred'' 0"

text \<open>\<^verbatim>\<open>a.slice(-1)[0]\<close>: the last element, \<^verbatim>\<open>undefined\<close> on an empty array.\<close>

definition last_or_undefined :: "'a list \<Rightarrow> 'a option" where
  "last_or_undefined xs = (if xs = [] then None else Some (last xs))"

definition retry_begin :: "int \<Rightarrow> error \<Rightarrow> world \<Rightarrow> suspension \<times> world" where
  "retry_begin now err w =
     (case w of (this, rt) \<Rightarrow>
        (let rt = (if truthy (timeout this) then clearTimeout (timeout this) rt else rt) in
         if budget_exceeded now this
         then (Return False, (this\<lparr>errors := timeout_error # (errors this @ [err])\<rparr>, rt))
         else
           (let this = this\<lparr>errors := errors this @ [err]\<rparr> in
            (case this_timeouts this of
               t # rest \<Rightarrow>
                 (let this = this\<lparr>this_timeouts := rest\<rparr>;
                      (h, rt) = setTimeout Resolve (Some t) rt
                  in (Await h, (this\<lparr>timer := Some h\<rparr>, rt)))
             | [] \<Rightarrow>
                 (case cachedTimeouts this of
                    Some cached \<Rightarrow>
                      (let this = this\<lparr>errors := drop (length (errors this) - 1) (errors this)\<rparr>;
                           (h, rt) = setTimeout Resolve (last_or_undefined cached) rt
                       in (Await h, (this\<lparr>timer := Some h\<rparr>, rt)))
                  | None \<Rightarrow> (Return False, (this, rt)))))))"

text \<open>
  After the \<^verbatim>\<open>await\<close>: \<^verbatim>\<open>this.attempts++\<close>, the call of \<^verbatim>\<open>this.fn!\<close> (a
  \<^verbatim>\<open>TypeError\<close> when no function was stored, which rejects the promise), the watchdog
  timer and \<^verbatim>\<open>return true\<close>.
\<close>

definition retry_resume :: "world \<Rightarrow> (exn + bool) \<times> world" where
  "retry_resume w =
     (case w of (this, rt) \<Rightarrow>
        (let this = this\<lparr>attempts := attempts this + 1\<rparr> in
         (case fn this of
            None \<Rightarrow> (Inl Throw_TypeError, (this, rt))
          | Some f \<Rightarrow>
              (let rt = rt\<lparr>trace := trace rt @ [Call f (attempts this)]\<rparr>;
                   (h, rt) = setTimeout RetryWatchdog (operationTimeout this) rt
               in (Inr True, (this\<lparr>timeout := Some h\<rparr>, rt))))))"

text \<open>
  A pending timer fires: it leaves the pending timers and its closure runs. The closure of
  \<^verbatim>\<open>retry\<close> calls \<^verbatim>\<open>self.operationTimeoutFn\<close>, a \<^verbatim>\<open>TypeError\<close> when that field is
  \<^verbatim>\<open>undefined\<close>; \<open>Resolve\<close> only wakes the suspended \<^verbatim>\<open>retry\<close>. The result holds
  the exception that the closure threw, if any.
\<close>

definition run_closure :: "closure \<Rightarrow> world \<Rightarrow> exn option \<times> world" where
  "run_closure c w =
     (case w of (this, rt) \<Rightarrow>
        (case c of
           AttemptWatchdog cb \<Rightarrow>
             (None, (this, rt\<lparr>trace := trace rt @ [Call cb (attempts this)]\<rparr>))
         | Resolve \<Rightarrow> (None, (this, rt))
         | RetryWatchdog \<Rightarrow>
             (case operationTimeoutFn this of
                None \<Rightarrow> (Some Throw_TypeError, (this, rt))
              | Some cb \<Rightarrow>
                  (None, (this, rt\<lparr>trace := trace rt @ [Call cb (attempts this)]\<rparr>)))))"

definition fire :: "nat \<Rightarrow> world \<Rightarrow> exn option \<times> world" where
  "fire h w =
     (case w of (this, rt) \<Rightarrow>
        (case pending rt h of
           None \<Rightarrow> (None, (this, rt))
         | Some (c, _) \<Rightarrow> run_closure c (this, clearTimeout (Some h) rt)))"

text \<open>
  A call of \<^verbatim>\<open>retry\<close> that nothing interrupts: when the method suspends, its timer is the
  next thing to fire and the method runs to its end.
\<close>

definition retry :: "int \<Rightarrow> error \<Rightarrow> world \<Rightarrow> (exn + bool) \<times> world" where
  "retry now err w =
     (case retry_begin now err w of
        (Return b, w') \<Rightarrow> (Inr b, w')
      | (Await h, w') \<Rightarrow>
          (case fire h w' of
             (Some e, w'') \<Rightarrow> (Inl e, w'')
           | (None, w'') \<Rightarrow> retry_resume w''))"

text \<open>Calls of \<^verbatim>\<open>retry\<close> one after the other, with the clock reading and the error of each.\<close>

fun retry_calls :: "(int \<times> error) list \<Rightarrow> world \<Rightarrow> (exn + bool) list \<times> world" where
  "retry_calls [] w = ([], w)"
| "retry_calls ((now, err) # cs) w =
     (case retry now err w of
        (r, w') \<Rightarrow> (case retry_calls cs w' of (rs, w'') \<Rightarrow> (r # rs, w'')))"

text \<open>
  What a caller and the host can do with an operation, and a run of such steps; the states
  that the runs from a new operation end in are the reachable ones.
\<close>

datatype invocation =
    Reset
  | Stop
  | Attempt callback "(rat option \<times> callback) option" int
  | Succeed
  | Retry int error
  | Fire nat

fun invoke :: "invocation \<Rightarrow> world \<Rightarrow> world" where
  "invoke Reset w = reset w"
| "invoke Stop w = stop w"
| "invoke (Attempt f timeoutOptions now) w = attempt f timeoutOptions now w"
| "invoke Succeed w = succeed w"
| "invoke (Retry now err) w = snd (retry now err w)"
| "invoke (Fire h) w = snd (fire h w)"

definition run :: "invocation list \<Rightarrow> world \<Rightarrow> world" where
  "run steps w = fold invoke steps w"

section \<open>The main error\<close>

text \<open>
  \<^verbatim>\<open>counts\<close> is the object literal \<^verbatim>\<open>{}\<close>, whose prototype is \<^verbatim>\<open>Object.prototype\<close>:
  reading \<^verbatim>\<open>counts[key]\<close> gives the own property when there is one, the inherited member
  when \<open>key\<close> names a member of \<^verbatim>\<open>Object.prototype\<close>, and \<^verbatim>\<open>undefined\<close> otherwise.
  The members are those of Deno, the runtime of the module, where \<^verbatim>\<open>Object.prototype\<close>
  has no \<^verbatim>\<open>__proto__\<close>.
  The values met are numbers, the inherited functions and objects, and the strings that
  \<^verbatim>\<open>+ 1\<close> makes of those (such as \<^verbatim>\<open>"function Object() { [native code] }1"\<close>), none of
  which reads as a number.
\<close>

datatype jsval = Number nat | Inherited | NonNumericString

definition Object_prototype_keys :: "string list" where
  "Object_prototype_keys =
     [''constructor'', ''hasOwnProperty'', ''isPrototypeOf'', ''propertyIsEnumerable'',
      ''toLocaleString'', ''toString'', ''valueOf'', ''__defineGetter__'',
      ''__defineSetter__'', ''__lookupGetter__'', ''__lookupSetter__'']"

definition get_property :: "(string \<rightharpoonup> jsval) \<Rightarrow> string \<Rightarrow> jsval option" where
  "get_property obj key =
     (case obj key of
        Some v \<Rightarrow> Some v
      | None \<Rightarrow> (if key \<in> set Object_prototype_keys then Some Inherited else None))"

text \<open>
  \<^verbatim>\<open>counts[key] = v\<close>: the key becomes an own property (no member of
  \<^verbatim>\<open>Object.prototype\<close> has a setter).
\<close>

definition set_property :: "(string \<rightharpoonup> jsval) \<Rightarrow> string \<Rightarrow> jsval \<Rightarrow> (string \<rightharpoonup> jsval)" where
  "set_property obj key v = obj(key \<mapsto> v)"

text \<open>
  \<^verbatim>\<open>(x || 0) + 1\<close>: \<^verbatim>\<open>undefined\<close> and \<open>0\<close> are falsy; on a function, an object or a
  string, \<^verbatim>\<open>+\<close> concatenates.
\<close>

definition or_zero_plus_one :: "jsval option \<Rightarrow> jsval" where
  "or_zero_plus_one x =
     (case x of
        None \<Rightarrow> Number 1
      | Some (Number n) \<Rightarrow> Number (n + 1)
      | Some Inherited \<Rightarrow> NonNumericString
      | Some NonNumericString \<Rightarrow> NonNumericString)"

text \<open>\<^verbatim>\<open>count >= mainErrorCount\<close>: a string that is not a number compares as \<^verbatim>\<open>NaN\<close>.\<close>

definition ge_number :: "jsval \<Rightarrow> nat \<Rightarrow> bool" where
  "ge_number count n = (case count of Number c \<Rightarrow> c \<ge> n | _ \<Rightarrow> False)"

fun getMainError_loop ::
  "error list \<Rightarrow> (string \<rightharpoonup> jsval) \<Rightarrow> error option \<Rightarrow> nat \<Rightarrow> error option" where
  "getMainError_loop [] counts mainError mainErrorCount = mainError"
| "getMainError_loop (error # rest) counts mainError mainErrorCount =
     (let count = or_zero_plus_one (get_property counts (message error));
          counts = set_property counts (message error) count
      in if ge_number count mainErrorCount
         then getMainError_loop rest counts (Some error) (case count of Number c \<Rightarrow> c | _ \<Rightarrow> 0)
         else getMainError_loop rest counts mainError mainErrorCount)"

definition getMainError :: "retry_operation \<Rightarrow> error option" where
  "getMainError this = getMainError_loop (errors this) Map.empty None 0"

section \<open>What the specification says, and the examples it names\<close>

text \<open>
  The delay formula in the words of the specification, for \<^verbatim>\<open>randomize = false\<close>:
  \<open>round(max(minTimeout, 1) * factor^attemptIndex)\<close>, then clamped to \<open>maxTimeout\<close>.
\<close>

definition computeDelay_spec :: "nat \<Rightarrow> rat \<Rightarrow> rat \<Rightarrow> jsnum \<Rightarrow> rat" where
  "computeDelay_spec attemptIndex factor' minTimeout' maxTimeout' =
     (let duration = of_int (round (max minTimeout' 1 * factor' ^ attemptIndex))
      in (case maxTimeout' of PInf \<Rightarrow> duration | Fin m \<Rightarrow> (if m < duration then m else duration)))"

text \<open>A \<^verbatim>\<open>Math.random\<close> that always returns 0.\<close>

definition no_random :: "nat \<Rightarrow> rat" where
  "no_random i = 0"

definition retries_3 :: options where
  "retries_3 = no_options\<lparr>retries := Some 3\<rparr>"


definition spec_example :: options where
  "spec_example = no_options\<lparr>factor := Some 2, minTimeout := Some 1000, maxTimeout := Some PInf,
     randomize := Some False\<rparr>"

text \<open>
  What no method changes: the snapshot \<^verbatim>\<open>originalTimeouts\<close>, the budget and the
  \<^verbatim>\<open>forever\<close> flag. Every method but \<^verbatim>\<open>stop\<close> keeps \<^verbatim>\<open>cachedTimeouts\<close> too.
\<close>

definition keeps_snapshot :: "world \<Rightarrow> world \<Rightarrow> bool" where
  "keeps_snapshot w w' =
     (originalTimeouts (fst w') = originalTimeouts (fst w) \<and>
      this_maxRetryTime (fst w') = this_maxRetryTime (fst w) \<and>
      options_forever (fst w') = options_forever (fst w))"

definition keeps_configuration :: "world \<Rightarrow> world \<Rightarrow> bool" where
  "keeps_configuration w w' =
     (keeps_snapshot w w' \<and> cachedTimeouts (fst w') = cachedTimeouts (fst w))"

text \<open>\<^verbatim>\<open>options.maxRetryTime || Infinity\<close>, as \<^verbatim>\<open>operation\<close> computes it.\<close>

definition resolved_maxRetryTime :: "options \<Rightarrow> jsnum" where
  "resolved_maxRetryTime opts =
     (case maxRetryTime opts of
        None \<Rightarrow> PInf
      | Some (Fin m) \<Rightarrow> (if m = 0 then PInf else Fin m)
      | Some PInf \<Rightarrow> PInf)"

text \<open>
  The operation of \<^verbatim>\<open>operation({retries: 3})\<close>, started at clock reading 100 with the
  work function 7 and no watchdog; the same in the middle of its first \<^verbatim>\<open>retry\<close>, at the
  \<^verbatim>\<open>await\<close>, and after it; and an operation with a budget of 500 ms.
\<close>

definition err_A :: error where
  "err_A = error.Error ''A'' 1"

definition err_B :: error where
  "err_B = error.Error ''B'' 2"

definition example_operation :: retry_operation where
  "example_operation = new_RetryOperation [1000, 2000, 4000] False PInf"

definition example_started :: world where
  "example_started = attempt 7 None 100 (example_operation, runtime0)"

definition example_suspended :: world where
  "example_suspended = snd (retry_begin 200 err_A example_started)"

definition example_retried :: world where
  "example_retried = snd (retry 200 err_A example_started)"


definition budget_500_operation :: retry_operation where
  "budget_500_operation = new_RetryOperation [1000, 2000, 4000] False (Fin 500)"

definition budget_500_started :: world where
  "budget_500_started = attempt 7 None 100 (budget_500_operation, runtime0)"




definition forever_1 :: options where
  "forever_1 = no_options\<lparr>retries := Some 1, forever := Some True\<rparr>"

definition forever_1_operation :: retry_operation where
  "forever_1_operation = new_RetryOperation [1000] True PInf"

text \<open>The timers after the first statement of \<^verbatim>\<open>retry\<close>, which clears the watchdog.\<close>

definition cleared :: "retry_operation \<Rightarrow> runtime \<Rightarrow> runtime" where
  "cleared this rt = (if truthy (timeout this) then clearTimeout (timeout this) rt else rt)"

text \<open>
  The main error in the words of the specification: errors are counted by message, the
  message with the highest count wins, and among the errors whose message has the highest
  count the last one seen is returned; nothing is returned for no errors.
\<close>

definition occurrences :: "string \<Rightarrow> error list \<Rightarrow> nat" where
  "occurrences m es = length (filter (\<lambda>e. message e = m) es)"

definition highest_count :: "error list \<Rightarrow> nat" where
  "highest_count es = Max (set (0 # map (\<lambda>e. occurrences (message e) es) es))"

definition mainError_spec :: "error list \<Rightarrow> error option" where
  "mainError_spec es =
     (if es = [] then None
      else Some (last (filter (\<lambda>e. occurrences (message e) es = highest_count es) es)))"

text \<open>The object \<^verbatim>\<open>counts\<close> after the loop has counted the errors \<open>es\<close>.\<close>

definition counts_of :: "error list \<Rightarrow> (string \<rightharpoonup> jsval)" where
  "counts_of es m = (if occurrences m es = 0 then None else Some (Number (occurrences m es)))"

text \<open>The errors of the example of the specification, and an operation that recorded the
  errors \<open>es\<close>.\<close>

definition errors_ABACB :: "error list" where
  "errors_ABACB =
     [error.Error ''A'' 1, error.Error ''B'' 2, error.Error ''A'' 3, error.Error ''C'' 4,
      error.Error ''B'' 5]"

definition err_constructor :: error where
  "err_constructor = error.Error ''constructor'' 1"

definition with_errors :: "error list \<Rightarrow> retry_operation" where
  "with_errors es = example_operation\<lparr>errors := es\<rparr>"

section \<open>Properties of the timeout sequence generator\<close>

lemma field_over_Some [simp]: "field d (over (Some x) y) = field x y"
  by (simp add: field_def over_def split: option.splits)

lemma field_over_None [simp]: "field d (over None y) = field d y"
  by (simp add: field_def over_def split: option.splits)

lemma over_over [simp]: "over a (over a y) = over a y"
  by (simp add: over_def split: option.splits)

lemma js_le_not_gt: "js_le a b \<longleftrightarrow> \<not> js_gt a b"
  by (cases a; cases b) auto


lemma createTimeout_eq:
  "createTimeout k params rnd =
     Math_min (Math_round ((if field False (randomize params) then rnd + 1 else 1)
                 * max (field 1000 (minTimeout params)) 1 * field 2 (factor params) ^ k))
       (field PInf (maxTimeout params))"
  by (simp add: createTimeout_def spread_def createTimeout_defaults_def no_options_def Let_def)

lemma createTimeout_merged:
  "createTimeout k (spread timeouts_defaults params) rnd = createTimeout k params rnd"
  by (simp add: createTimeout_eq spread_def timeouts_defaults_def no_options_def)


lemma timeouts_loop_Some_finite:
  assumes "timeouts_loop i n mk ts = Some r"
  shows "n \<noteq> \<infinity>"
proof (rule timeouts_loop.raw_induct [where P = "\<lambda>i n mk ts r. n \<noteq> \<infinity>"])
  show "timeouts_loop i n mk ts = Some r" by (rule assms)
next
  fix f i n mk ts r
  assume hyp: "\<And>i n mk ts y. f i n mk ts = Some y \<Longrightarrow> n \<noteq> \<infinity>"
    and step: "(if enat i < n then f (i + 1) n mk (ts @ [mk i]) else Some ts) = Some r"
  show "n \<noteq> \<infinity>"
  proof (cases "enat i < n")
    case True
    with step have "f (i + 1) n mk (ts @ [mk i]) = Some r" by simp
    then show ?thesis by (rule hyp)
  next
    case False
    then show ?thesis by (cases n) auto
  qed
qed

lemma timeouts_loop_infinity: "timeouts_loop i \<infinity> mk ts = None"
proof (cases "timeouts_loop i \<infinity> mk ts")
  case None
  then show ?thesis .
next
  case (Some r)
  then show ?thesis using timeouts_loop_Some_finite by blast
qed

lemma timeouts_loop_enat:
  "i \<le> n \<Longrightarrow> timeouts_loop i (enat n) mk ts = Some (ts @ map mk [i..<n])"
proof (induction "n - i" arbitrary: i ts)
  case 0
  then show ?case by (subst timeouts_loop.simps) simp
next
  case (Suc k)
  then have "i < n" by simp
  moreover have "timeouts_loop (i + 1) (enat n) mk (ts @ [mk i]) = Some ((ts @ [mk i]) @ map mk [i + 1..<n])"
    using Suc by (intro Suc.hyps(1)) auto
  ultimately show ?case
    by (subst timeouts_loop.simps) (simp add: upt_conv_Cons)
qed

lemma timeouts_finite:
  assumes "js_le (Fin (field 1000 (minTimeout params))) (field PInf (maxTimeout params))"
    and "field 10 (retries params) = enat n"
  shows "timeouts params rnd =
    Some (Inr (sort (map (\<lambda>i. createTimeout i params (rnd i))
                        (if field False (forever params) \<and> n = 0 then [0] else [0..<n]))))"
  using assms
  by (simp add: timeouts_def Let_def spread_def timeouts_defaults_def no_options_def
      js_le_not_gt timeouts_loop_enat createTimeout_merged[unfolded spread_def timeouts_defaults_def no_options_def, simplified])

lemma timeouts_infinite:
  assumes "js_le (Fin (field 1000 (minTimeout params))) (field PInf (maxTimeout params))"
    and "field 10 (retries params) = \<infinity>"
  shows "timeouts params rnd = None"
  using assms
  by (simp add: timeouts_def Let_def spread_def timeouts_defaults_def no_options_def
      js_le_not_gt timeouts_loop_infinity)

lemma timeouts_throws:
  assumes "\<not> js_le (Fin (field 1000 (minTimeout params))) (field PInf (maxTimeout params))"
  shows "timeouts params rnd = Some (Inl (Throw_Error ''minTimeout is greater than maxTimeout''))"
  using assms
  by (simp add: timeouts_def Let_def spread_def timeouts_defaults_def no_options_def
      js_le_not_gt)




section \<open>Properties of the delay in double precision\<close>

lemma round_half_even_of_int [simp]: "round_half_even (of_int z) = z"
  by (simp add: round_half_even_def)

lemma binade_le:
  assumes "\<bar>q\<bar> * 2 ^ 1074 < 2 ^ (53 + k)" and "k \<le> 2045"
  shows "binade q \<le> k"
proof -
  let ?P = "\<lambda>k. \<bar>q\<bar> * 2 ^ 1074 < 2 ^ (53 + k)"
  have "k \<in> set [0..<2046]" using assms(2) by simp
  with assms(1) have "find ?P [0..<2046] \<noteq> None"
    by (auto simp: find_None_iff)
  then obtain k' where f: "find ?P [0..<2046] = Some k'" by auto
  then obtain i where i: "i < length [0..<2046]" "k' = [0..<2046] ! i"
    "\<forall>j<i. \<not> ?P ([0..<2046] ! j)"
    by (auto simp: find_Some_iff)
  have "k' \<le> k"
  proof (rule ccontr)
    assume "\<not> k' \<le> k"
    then have "k < i" using i(1,2) by simp
    moreover have "[0..<2046] ! k = k" using assms(2) by simp
    ultimately show False using i(3) assms(1) by auto
  qed
  with f show ?thesis by (simp add: binade_def)
qed

text \<open>
  A number \<open>m * 2^k / 2^1074\<close> with \<open>\<bar>m\<bar> < 2^53\<close> and \<open>k \<le> 2045\<close> is a double:
  rounding returns it.
\<close>

lemma fl_exact:
  assumes m: "\<bar>m\<bar> < 2 ^ 53" and k: "k \<le> 2045"
  shows "fl (of_int m * 2 ^ k / 2 ^ 1074) = Finite (of_int m * 2 ^ k / 2 ^ 1074)"
proof -
  let ?q = "of_int m * 2 ^ k / 2 ^ 1074 :: rat"
  have m': "\<bar>of_int m :: rat\<bar> < 2 ^ 53"
    using m by (metis of_int_abs of_int_less_iff of_int_numeral of_int_power)
  have scaled: "\<bar>?q\<bar> * 2 ^ 1074 = \<bar>of_int m\<bar> * 2 ^ k"
    by (simp add: abs_mult)
  have "\<bar>of_int m :: rat\<bar> * 2 ^ k < 2 ^ 53 * 2 ^ k"
    using m' by simp
  then have P: "\<bar>?q\<bar> * 2 ^ 1074 < 2 ^ (53 + k)"
    by (simp only: scaled power_add)
  have b: "binade ?q \<le> k"
    using P k by (rule binade_le)
  have "\<bar>of_int m :: rat\<bar> \<le> 2 ^ 53 - 1"
  proof -
    have "\<bar>m\<bar> \<le> 2 ^ 53 - 1" using m by simp
    then have "(of_int \<bar>m\<bar> :: rat) \<le> of_int (2 ^ 53 - 1)" by (simp only: of_int_le_iff)
    then show ?thesis by simp
  qed
  then have "\<bar>of_int m :: rat\<bar> * 2 ^ k \<le> (2 ^ 53 - 1) * 2 ^ k"
    by (intro mult_right_mono) simp_all
  also have "\<dots> \<le> (2 ^ 53 - 1) * 2 ^ 2045"
    using k by (intro mult_left_mono power_increasing) simp_all
  finally have "\<bar>?q\<bar> * 2 ^ 1074 \<le> (2 ^ 53 - 1) * 2 ^ 2045"
    by (simp only: scaled)
  moreover have "((2::rat) ^ 53 - 1) * 2 ^ 2045 < (2 ^ 1024 - 2 ^ 970) * 2 ^ 1074"
    by simp
  ultimately have "\<bar>?q\<bar> * 2 ^ 1074 < (2 ^ 1024 - 2 ^ 970) * 2 ^ 1074"
    by simp
  then have small: "\<not> 2 ^ 1024 - 2 ^ 970 \<le> \<bar>?q\<bar>"
    by simp
  have "?q / quantum ?q = of_int m * 2 ^ k / 2 ^ binade ?q"
    by (simp add: quantum_def)
  also have "\<dots> = of_int m * 2 ^ (k - binade ?q)"
    using b by (simp add: power_diff)
  also have "\<dots> = of_int (m * 2 ^ (k - binade ?q))"
    by simp
  finally have int: "?q / quantum ?q = of_int (m * 2 ^ (k - binade ?q))" .
  have "of_int (round_half_even (?q / quantum ?q)) * quantum ?q = ?q / quantum ?q * quantum ?q"
    by (simp only: int round_half_even_of_int)
  also have "\<dots> = ?q"
    by (simp add: quantum_def)
  finally show ?thesis
    using small by (simp only: fl_def if_False)
qed

lemma fl_of_int:
  assumes "\<bar>z\<bar> < 2 ^ 53"
  shows "fl (of_int z) = Finite (of_int z)"
  using fl_exact [OF assms, of 1074] by simp

lemma fl_power_of_two:
  assumes "i \<le> 1023"
  shows "fl (2 ^ i) = Finite (2 ^ i)"
proof -
  have "fl (of_int (2 ^ 52) * 2 ^ (i + 1022) / 2 ^ 1074) =
      Finite (of_int (2 ^ 52) * 2 ^ (i + 1022) / 2 ^ 1074)"
    using assms by (intro fl_exact) simp_all
  moreover have "of_int (2 ^ 52) * 2 ^ (i + 1022) / 2 ^ 1074 = (2::rat) ^ i"
    by (simp add: power_add)
  ultimately show ?thesis by simp
qed

lemma fl_1000_power_of_two:
  assumes "i \<le> 1014"
  shows "fl (1000 * 2 ^ i) = Finite (1000 * 2 ^ i)"
proof -
  have "fl (of_int (125 * 2 ^ 46) * 2 ^ (i + 1031) / 2 ^ 1074) =
      Finite (of_int (125 * 2 ^ 46) * 2 ^ (i + 1031) / 2 ^ 1074)"
    using assms by (intro fl_exact) simp_all
  moreover have "of_int (125 * 2 ^ 46) * 2 ^ (i + 1031) / 2 ^ 1074 = (1000::rat) * 2 ^ i"
    by (simp add: power_add)
  ultimately show ?thesis by simp
qed

lemma fl_overflow:
  assumes "2 ^ 1024 \<le> q"
  shows "fl q = PosInfinity"
proof -
  have "(0::rat) < 2 ^ 1024" by simp
  with assms have "0 < q" by linarith
  moreover have "(2::rat) ^ 1024 - 2 ^ 970 \<le> 2 ^ 1024" by simp
  with assms have "2 ^ 1024 - 2 ^ 970 \<le> \<bar>q\<bar>" by linarith
  ultimately show ?thesis by (simp only: fl_def if_True)
qed

lemma big_power_of_two:
  assumes "1024 \<le> i"
  shows "(2::rat) ^ 1024 \<le> 2 ^ i"
  using assms by (intro power_increasing) simp_all

lemma big_1000_power_of_two:
  assumes "1015 \<le> i"
  shows "(2::rat) ^ 1024 \<le> 1000 * 2 ^ i"
proof -
  have "(2::rat) ^ 1024 = 512 * 2 ^ 1015" by simp
  also have "\<dots> \<le> 1000 * 2 ^ 1015" by simp
  also have "\<dots> \<le> 1000 * 2 ^ i"
    using assms by (intro mult_left_mono power_increasing) simp_all
  finally show ?thesis .
qed

lemma createTimeout_double_eq:
  "createTimeout_double Math_pow k params rnd =
     min64
       (round64
          (mul64
             (mul64 (if field False (randomize params) then fl (rnd + 1) else Finite 1)
                    (Finite (max (field 1000 (minTimeout params)) 1)))
             (Math_pow (field 2 (factor params)) k)))
       (field PInf (maxTimeout params))"
  by (simp add: createTimeout_double_def spread_def createTimeout_defaults_def no_options_def
      Let_def)

lemma not_randomized: "randomize params \<noteq> Some True \<Longrightarrow> field False (randomize params) = False"
  by (cases "randomize params") (auto simp: field_def)

lemma createTimeout_double_deterministic:
  assumes "randomize params \<noteq> Some True"
  shows "createTimeout_double Math_pow k params rnd = createTimeout_double Math_pow k params rnd'"
  by (simp add: createTimeout_double_eq not_randomized [OF assms])

lemma createTimeout_double_exact:
  assumes nr: "randomize params \<noteq> Some True"
    and m: "representable (max (field 1000 (minTimeout params)) 1)"
    and p: "Math_pow (field 2 (factor params)) k = Finite (field 2 (factor params) ^ k)"
    and r: "representable (max (field 1000 (minTimeout params)) 1 * field 2 (factor params) ^ k)"
  shows "createTimeout_double Math_pow k params rnd =
    Finite (computeDelay_spec k (field 2 (factor params)) (field 1000 (minTimeout params))
              (field PInf (maxTimeout params)))"
proof -
  let ?a = "max (field 1000 (minTimeout params)) 1"
  let ?f = "field 2 (factor params)"
  have 1: "fl ?a = Finite ?a"
    using m by (simp add: representable_def)
  have 2: "fl (?a * ?f ^ k) = Finite (?a * ?f ^ k)"
    using r by (simp add: representable_def)
  show ?thesis
    by (cases "field PInf (maxTimeout params)")
       (simp_all add: createTimeout_double_eq not_randomized [OF nr] p 1 2 computeDelay_spec_def
          Let_def min_def)
qed

text \<open>
  Where the double operations are exact, the delay in double precision is the delay
  computed with exact arithmetic.
\<close>

lemma createTimeout_double_agrees:
  assumes "randomize params \<noteq> Some True"
    and "representable (max (field 1000 (minTimeout params)) 1)"
    and "Math_pow (field 2 (factor params)) k = Finite (field 2 (factor params) ^ k)"
    and "representable (max (field 1000 (minTimeout params)) 1 * field 2 (factor params) ^ k)"
  shows "createTimeout_double Math_pow k params rnd = Finite (createTimeout k params rnd)"
proof -
  have "createTimeout k params rnd =
      computeDelay_spec k (field 2 (factor params)) (field 1000 (minTimeout params))
        (field PInf (maxTimeout params))"
    by (cases "field PInf (maxTimeout params)")
       (simp_all add: createTimeout_eq not_randomized [OF assms(1)] computeDelay_spec_def
          Math_round_def Let_def min_def)
  moreover have "createTimeout_double Math_pow k params rnd =
      Finite (computeDelay_spec k (field 2 (factor params)) (field 1000 (minTimeout params))
                (field PInf (maxTimeout params)))"
    using assms by (rule createTimeout_double_exact)
  ultimately show ?thesis by simp
qed

lemma spec_example_fields:
  "field False (randomize spec_example) = False"
  "field 1000 (minTimeout spec_example) = 1000"
  "field 2 (factor spec_example) = 2"
  "field PInf (maxTimeout spec_example) = PInf"
  by (simp_all add: spec_example_def no_options_def field_def)

lemma fl_1000: "fl 1000 = Finite 1000"
  using fl_of_int [of 1000] by simp

lemma createTimeout_double_example_exact:
  assumes "Math_pow 2 i = fl (2 ^ i)" and "i \<le> 1014"
  shows "createTimeout_double Math_pow i spec_example rnd = Finite (1000 * 2 ^ i)"
proof -
  have p: "Math_pow 2 i = Finite (2 ^ i)"
    using assms fl_power_of_two [of i] by simp
  have "(1000::rat) * 2 ^ i = of_int (1000 * 2 ^ i)" by simp
  then have r: "(of_int (round ((1000::rat) * 2 ^ i)) :: rat) = 1000 * 2 ^ i"
    by (simp only: round_of_int)
  show ?thesis
    by (simp add: createTimeout_double_eq spec_example_fields p fl_1000
        fl_1000_power_of_two [OF assms(2)] r)
qed

lemma createTimeout_double_example_overflow:
  assumes "Math_pow 2 i = fl (2 ^ i)" and "1015 \<le> i"
  shows "createTimeout_double Math_pow i spec_example rnd = PosInfinity"
proof (cases "i \<le> 1023")
  case True
  then have p: "Math_pow 2 i = Finite (2 ^ i)"
    using assms fl_power_of_two [of i] by simp
  have "fl (1000 * 2 ^ i) = PosInfinity"
    using assms(2) by (intro fl_overflow big_1000_power_of_two)
  then show ?thesis
    by (simp add: createTimeout_double_eq spec_example_fields p fl_1000)
next
  case False
  then have "fl (2 ^ i) = PosInfinity"
    by (intro fl_overflow big_power_of_two) simp
  with assms have p: "Math_pow 2 i = PosInfinity" by simp
  show ?thesis
    by (simp add: createTimeout_double_eq spec_example_fields p fl_1000)
qed

text \<open>
  C5, as amended. Without \<^verbatim>\<open>randomize\<close>, \<^verbatim>\<open>createTimeout\<close> does not depend on the
  random source, and it computes the formula of the specification in double precision: its
  result is the exact value of \<open>round(max(minTimeout, 1) * factor^attemptIndex)\<close> clamped
  to \<open>maxTimeout\<close> whenever \<open>max(minTimeout, 1)\<close>, the power that \<^verbatim>\<open>Math.pow\<close>
  returns and their product are exact. With \<open>factor = 2\<close>, \<open>minTimeout = 1000\<close> and
  \<open>maxTimeout = Infinity\<close>, on a host whose \<^verbatim>\<open>Math.pow(2, i)\<close> is the double nearest to
  \<open>2^i\<close>, it returns \<open>1000 * 2^i\<close> for every attempt index \<open>i\<close> up to 1014, so 1000
  for 0 and 8000 for 3, and \<^verbatim>\<open>Infinity\<close> for every \<open>i\<close> from 1015 on.
\<close>

theorem createTimeout_double_not_randomized:
  "(randomize params \<noteq> Some True \<longrightarrow>
      createTimeout_double Math_pow i params rnd = createTimeout_double Math_pow i params rnd') \<and>
   (randomize params \<noteq> Some True \<and>
    representable (max (field 1000 (minTimeout params)) 1) \<and>
    Math_pow (field 2 (factor params)) i = Finite (field 2 (factor params) ^ i) \<and>
    representable (max (field 1000 (minTimeout params)) 1 * field 2 (factor params) ^ i) \<longrightarrow>
      createTimeout_double Math_pow i params rnd =
        Finite (computeDelay_spec i (field 2 (factor params)) (field 1000 (minTimeout params))
                  (field PInf (maxTimeout params)))) \<and>
   (Math_pow 2 i = fl (2 ^ i) \<and> i \<le> 1014 \<longrightarrow>
      createTimeout_double Math_pow i spec_example rnd = Finite (1000 * 2 ^ i)) \<and>
   (Math_pow 2 i = fl (2 ^ i) \<and> 1015 \<le> i \<longrightarrow>
      createTimeout_double Math_pow i spec_example rnd = PosInfinity) \<and>
   (Math_pow 2 0 = fl (2 ^ 0) \<longrightarrow>
      createTimeout_double Math_pow 0 spec_example rnd = Finite 1000) \<and>
   (Math_pow 2 3 = fl (2 ^ 3) \<longrightarrow>
      createTimeout_double Math_pow 3 spec_example rnd = Finite 8000)"
  using createTimeout_double_deterministic [of params Math_pow i rnd rnd']
    createTimeout_double_exact [of params Math_pow i rnd]
    createTimeout_double_example_exact [of Math_pow i rnd]
    createTimeout_double_example_overflow [of Math_pow i rnd]
    createTimeout_double_example_exact [of Math_pow 0 rnd]
    createTimeout_double_example_exact [of Math_pow 3 rnd]
  by simp

text \<open>
  The hypotheses of C5 hold for the options of the example and the correctly rounded
  \<^verbatim>\<open>Math.pow\<close>, at the attempt indices 3, 0 and 2000.
\<close>

theorem createTimeout_double_not_randomized_witness:
  "randomize spec_example \<noteq> Some True \<and>
   representable (max (field 1000 (minTimeout spec_example)) 1) \<and>
   correctly_rounded_pow (field 2 (factor spec_example)) 3 =
     Finite (field 2 (factor spec_example) ^ 3) \<and>
   representable (max (field 1000 (minTimeout spec_example)) 1 * field 2 (factor spec_example) ^ 3) \<and>
   correctly_rounded_pow 2 3 = fl (2 ^ 3) \<and> (3::nat) \<le> 1014 \<and>
   correctly_rounded_pow 2 0 = fl (2 ^ 0) \<and>
   createTimeout_double correctly_rounded_pow 3 spec_example (1/2) =
     createTimeout_double correctly_rounded_pow 3 spec_example 0 \<and>
   createTimeout_double correctly_rounded_pow 3 spec_example (1/2) =
     Finite (computeDelay_spec 3 (field 2 (factor spec_example))
               (field 1000 (minTimeout spec_example)) (field PInf (maxTimeout spec_example))) \<and>
   createTimeout_double correctly_rounded_pow 3 spec_example (1/2) = Finite 8000 \<and>
   createTimeout_double correctly_rounded_pow 0 spec_example (1/2) = Finite 1000 \<and>
   correctly_rounded_pow 2 2000 = fl (2 ^ 2000) \<and> (1015::nat) \<le> 2000 \<and>
   createTimeout_double correctly_rounded_pow 2000 spec_example (1/2) = PosInfinity"
proof -
  have h1: "randomize spec_example \<noteq> Some True"
    by (simp add: spec_example_def no_options_def)
  have h2: "representable (max (field 1000 (minTimeout spec_example)) 1)"
    by (simp add: spec_example_fields representable_def fl_1000)
  have h3: "correctly_rounded_pow (field 2 (factor spec_example)) 3 =
      Finite (field 2 (factor spec_example) ^ 3)"
    using fl_power_of_two [of 3] by (simp add: spec_example_fields correctly_rounded_pow_def)
  have h4: "representable
      (max (field 1000 (minTimeout spec_example)) 1 * field 2 (factor spec_example) ^ 3)"
    using fl_1000_power_of_two [of 3] by (simp add: spec_example_fields representable_def)
  have h5: "correctly_rounded_pow 2 j = fl (2 ^ j)" for j
    by (simp only: correctly_rounded_pow_def)
  have h6: "(3::nat) \<le> 1014" "(1015::nat) \<le> 2000"
    by simp_all
  note at_3 = createTimeout_double_not_randomized
      [of spec_example correctly_rounded_pow 3 "1/2" 0]
  note at_2000 = createTimeout_double_not_randomized
      [of spec_example correctly_rounded_pow 2000 "1/2" 0]
  from at_3 h1 have c1: "createTimeout_double correctly_rounded_pow 3 spec_example (1/2) =
      createTimeout_double correctly_rounded_pow 3 spec_example 0"
    by blast
  from at_3 h1 h2 h3 h4
  have c2: "createTimeout_double correctly_rounded_pow 3 spec_example (1/2) =
      Finite (computeDelay_spec 3 (field 2 (factor spec_example))
                (field 1000 (minTimeout spec_example)) (field PInf (maxTimeout spec_example)))"
    by blast
  from at_3 h5 [of 3]
  have c3: "createTimeout_double correctly_rounded_pow 3 spec_example (1/2) = Finite 8000"
    by blast
  from at_3 h5 [of 0]
  have c4: "createTimeout_double correctly_rounded_pow 0 spec_example (1/2) = Finite 1000"
    by blast
  from at_2000 h5 [of 2000] h6(2)
  have c5: "createTimeout_double correctly_rounded_pow 2000 spec_example (1/2) = PosInfinity"
    by blast
  from h1 h2 h3 h4 h5 [of 3] h5 [of 0] h5 [of 2000] h6 c1 c2 c3 c4 c5
  show ?thesis by blast
qed

text \<open>
  C5 as stated fails: for the options of the example, at the attempt index 1015, the power
  \<open>2^1015\<close> is still a double, but its product with 1000 is beyond the largest double, and
  \<^verbatim>\<open>createTimeout\<close> returns \<^verbatim>\<open>Infinity\<close>, not \<open>1000 * 2^1015\<close>.
\<close>

theorem createTimeout_double_1015_counterexample:
  "randomize spec_example \<noteq> Some True \<and>
   correctly_rounded_pow 2 1015 = Finite (2 ^ 1015) \<and>
   createTimeout_double correctly_rounded_pow 1015 spec_example 0 = PosInfinity \<and>
   createTimeout_double correctly_rounded_pow 1015 spec_example 0 \<noteq> Finite (1000 * 2 ^ 1015)"
proof -
  have "correctly_rounded_pow 2 1015 = fl (2 ^ 1015)"
    by (simp only: correctly_rounded_pow_def)
  moreover have "fl (2 ^ 1015) = Finite (2 ^ 1015)"
    by (rule fl_power_of_two) simp
  moreover have "createTimeout_double correctly_rounded_pow 1015 spec_example 0 = PosInfinity"
    by (rule createTimeout_double_example_overflow)
       (simp_all only: correctly_rounded_pow_def order_refl)
  moreover have "randomize spec_example \<noteq> Some True"
    by (simp add: spec_example_def no_options_def)
  ultimately show ?thesis by (simp only: binary64.distinct simp_thms)
qed

section \<open>Properties of the retry operation\<close>

lemma keeps_snapshot_refl: "keeps_snapshot w w"
  by (simp add: keeps_snapshot_def)

lemma keeps_snapshot_trans:
  "keeps_snapshot w w' \<Longrightarrow> keeps_snapshot w' w'' \<Longrightarrow> keeps_snapshot w w''"
  by (simp add: keeps_snapshot_def)

lemma keeps_configuration_refl: "keeps_configuration w w"
  by (simp add: keeps_configuration_def keeps_snapshot_def)

lemma keeps_configuration_trans:
  "keeps_configuration w w' \<Longrightarrow> keeps_configuration w' w'' \<Longrightarrow> keeps_configuration w w''"
  by (simp add: keeps_configuration_def keeps_snapshot_def)

lemma keeps_configuration_snapshot: "keeps_configuration w w' \<Longrightarrow> keeps_snapshot w w'"
  by (simp add: keeps_configuration_def)

lemma setTimeout_fst [simp]: "fst (setTimeout c d rt) = next_handle rt"
  by (simp add: setTimeout_def)

lemma reset_keeps: "keeps_configuration w (reset w)"
  by (cases w) (simp add: keeps_configuration_def keeps_snapshot_def reset_def)

lemma stop_keeps: "keeps_snapshot w (stop w)"
  by (cases w) (simp add: keeps_snapshot_def stop_def Let_def)

lemma attempt_keeps: "keeps_configuration w (attempt f t now w)"
  by (cases w)
     (simp add: keeps_configuration_def keeps_snapshot_def attempt_def Let_def
        split: option.splits prod.splits)

lemma succeed_keeps: "keeps_configuration w (succeed w)"
  by (cases w) (simp add: keeps_configuration_def keeps_snapshot_def succeed_def)

lemma retry_begin_keeps: "keeps_configuration w (snd (retry_begin now err w))"
  by (cases w)
     (simp add: keeps_configuration_def keeps_snapshot_def retry_begin_def Let_def
        split: option.splits prod.splits list.splits)

lemma retry_resume_keeps: "keeps_configuration w (snd (retry_resume w))"
  by (cases w)
     (simp add: keeps_configuration_def keeps_snapshot_def retry_resume_def Let_def
        split: option.splits prod.splits)

lemma fire_keeps: "keeps_configuration w (snd (fire h w))"
  by (cases w)
     (simp add: keeps_configuration_def keeps_snapshot_def fire_def run_closure_def
        split: option.splits prod.splits closure.splits)

lemma retry_keeps: "keeps_configuration w (snd (retry now err w))"
proof -
  obtain s w' where Pair: "retry_begin now err w = (s, w')"
    by (cases "retry_begin now err w") auto
  have 1: "keeps_configuration w w'"
    using retry_begin_keeps [of w now err] Pair by simp
  show ?thesis
  proof (cases s)
    case (Return b)
    with Pair 1 show ?thesis by (simp add: retry_def)
  next
    case (Await h)
    obtain e w'' where f: "fire h w' = (e, w'')" by (cases "fire h w'")
    have 2: "keeps_configuration w' w''"
      using fire_keeps [of w' h] f by simp
    have 3: "keeps_configuration w'' (snd (retry_resume w''))"
      by (rule retry_resume_keeps)
    show ?thesis
      using Pair Await f 1 2 3
      by (cases e) (auto simp: retry_def intro: keeps_configuration_trans)
  qed
qed

lemma invoke_keeps: "c \<noteq> Stop \<Longrightarrow> keeps_configuration w (invoke c w)"
  by (cases c)
     (simp_all add: reset_keeps attempt_keeps succeed_keeps retry_keeps fire_keeps)

lemma invoke_keeps_snapshot: "keeps_snapshot w (invoke c w)"
proof (cases "c = Stop")
  case True
  then show ?thesis by (simp add: stop_keeps)
next
  case False
  then show ?thesis by (intro keeps_configuration_snapshot invoke_keeps)
qed

lemma run_Nil [simp]: "run [] w = w"
  by (simp add: run_def)

lemma run_Cons [simp]: "run (c # steps) w = run steps (invoke c w)"
  by (simp add: run_def)

lemma run_keeps: "Stop \<notin> set steps \<Longrightarrow> keeps_configuration w (run steps w)"
proof (induction steps arbitrary: w)
  case Nil
  then show ?case by (simp add: keeps_configuration_refl)
next
  case (Cons c steps)
  then have "keeps_configuration w (invoke c w)" by (intro invoke_keeps) auto
  moreover have "keeps_configuration (invoke c w) (run steps (invoke c w))"
    using Cons by simp
  ultimately show ?case
    using keeps_configuration_trans by simp
qed

lemma run_keeps_snapshot: "keeps_snapshot w (run steps w)"
proof (induction steps arbitrary: w)
  case Nil
  then show ?case by (simp add: keeps_snapshot_refl)
next
  case (Cons c steps)
  have "keeps_snapshot w (invoke c w)" by (rule invoke_keeps_snapshot)
  moreover have "keeps_snapshot (invoke c w) (run steps (invoke c w))" by (rule Cons.IH)
  ultimately show ?case
    using keeps_snapshot_trans by simp
qed

lemma next_handle_cleared [simp]: "next_handle (cleared this rt) = next_handle rt"
  by (simp add: cleared_def clearTimeout_def split: option.splits)

lemma retry_budget:
  assumes "budget_exceeded now this"
  shows "retry now err (this, rt) =
    (Inr False, (this\<lparr>errors := timeout_error # (errors this @ [err])\<rparr>, cleared this rt))"
  using assms by (simp add: retry_def retry_begin_def cleared_def Let_def)

lemma retry_exhausted:
  assumes "\<not> budget_exceeded now this" "this_timeouts this = []" "cachedTimeouts this = None"
  shows "retry now err (this, rt) =
    (Inr False, (this\<lparr>errors := errors this @ [err]\<rparr>, cleared this rt))"
  using assms by (simp add: retry_def retry_begin_def cleared_def Let_def)

lemma retry_begin_timeout:
  assumes "\<not> budget_exceeded now this" "this_timeouts this = t # rest"
  shows "retry_begin now err (this, rt) =
    (Await (next_handle rt),
     (this\<lparr>errors := errors this @ [err], this_timeouts := rest, timer := Some (next_handle rt)\<rparr>,
      snd (setTimeout Resolve (Some t) (cleared this rt))))"
  using assms
  by (simp add: retry_begin_def cleared_def Let_def setTimeout_def clearTimeout_def
      split: option.splits)

lemma retry_begin_forever:
  assumes "\<not> budget_exceeded now this" "this_timeouts this = []" "cachedTimeouts this = Some c"
  shows "retry_begin now err (this, rt) =
    (Await (next_handle rt),
     (this\<lparr>errors := [err], timer := Some (next_handle rt)\<rparr>,
      snd (setTimeout Resolve (last_or_undefined c) (cleared this rt))))"
  using assms
  by (simp add: retry_begin_def cleared_def Let_def setTimeout_def clearTimeout_def
      split: option.splits)

lemma fire_resolve:
  "fire (next_handle rt) (this, snd (setTimeout Resolve d rt)) =
     (None, (this, rt\<lparr>next_handle := next_handle rt + 1, pending := (pending rt)(next_handle rt := None)\<rparr>))"
  by (simp add: fire_def setTimeout_def run_closure_def clearTimeout_def)

lemma retry_resume_fn:
  assumes "fn this = Some f"
  shows "retry_resume (this, rt) =
    (Inr True,
     (this\<lparr>attempts := attempts this + 1, timeout := Some (next_handle rt)\<rparr>,
      snd (setTimeout RetryWatchdog (operationTimeout this)
             (rt\<lparr>trace := trace rt @ [Call f (attempts this + 1)]\<rparr>))))"
  using assms by (simp add: retry_resume_def Let_def setTimeout_def)

lemma retry_after_await:
  assumes b: "retry_begin now err (this, rt) =
      (Await (next_handle rt), (this1, snd (setTimeout Resolve d (cleared this rt))))"
    and f: "fn this1 = Some f"
  shows "\<exists>rt'. retry now err (this, rt) =
    (Inr True, (this1\<lparr>attempts := attempts this1 + 1, timeout := Some (next_handle rt + 1)\<rparr>, rt'))"
proof -
  let ?rt2 = "(cleared this rt)\<lparr>next_handle := next_handle (cleared this rt) + 1,
      pending := (pending (cleared this rt))(next_handle (cleared this rt) := None)\<rparr>"
  have fire: "fire (next_handle rt) (this1, snd (setTimeout Resolve d (cleared this rt))) =
      (None, (this1, ?rt2))"
    using fire_resolve [of "cleared this rt" this1 d] by simp
  have "\<exists>rt'. retry_resume (this1, ?rt2) = 
     (Inr True, (this1\<lparr>attempts := attempts this1 + 1, timeout := Some (next_handle rt + 1)\<rparr>, rt'))"
    by (simp add: retry_resume_fn [OF f])
  then show ?thesis
    by (simp add: retry_def b fire)
qed

lemma retry_timeout:
  assumes "\<not> budget_exceeded now this" "this_timeouts this = t # rest" "fn this = Some f"
  shows "\<exists>rt'. retry now err (this, rt) =
    (Inr True,
     (this\<lparr>errors := errors this @ [err], this_timeouts := rest, timer := Some (next_handle rt),
        attempts := attempts this + 1, timeout := Some (next_handle rt + 1)\<rparr>, rt'))"
  using retry_after_await [OF retry_begin_timeout [OF assms(1,2)], where f = f] assms(3)
  by simp

lemma retry_forever:
  assumes "\<not> budget_exceeded now this" "this_timeouts this = []" "cachedTimeouts this = Some c"
    "fn this = Some f"
  shows "\<exists>rt'. retry now err (this, rt) =
    (Inr True,
     (this\<lparr>errors := [err], timer := Some (next_handle rt),
        attempts := attempts this + 1, timeout := Some (next_handle rt + 1)\<rparr>, rt'))"
  using retry_after_await [OF retry_begin_forever [OF assms(1,2,3)], where f = f] assms(4)
  by simp

lemma operation_result:
  assumes "operation opts rnd = Some (Inr this0)"
  shows "\<exists>n. field 10 (retries opts) = enat n \<and>
    js_le (Fin (field 1000 (minTimeout opts))) (field PInf (maxTimeout opts)) \<and>
    timeouts opts rnd = Some (Inr (originalTimeouts this0)) \<and>
    this0 = new_RetryOperation
      (sort (map (\<lambda>i. createTimeout i opts (rnd i))
               (if field False (forever opts) \<and> n = 0 then [0] else [0..<n])))
      (field False (forever opts)) (resolved_maxRetryTime opts)"
proof (cases "js_le (Fin (field 1000 (minTimeout opts))) (field PInf (maxTimeout opts))")
  case False
  then show ?thesis
    using assms timeouts_throws [OF False, of rnd] by (simp add: operation_def)
next
  case valid: True
  show ?thesis
  proof (cases "field 10 (retries opts)")
    case infinity
    then show ?thesis
      using assms timeouts_infinite [OF valid infinity, of rnd] by (simp add: operation_def)
  next
    case (enat n)
    then have "retries opts \<noteq> Some \<infinity>"
      by (auto simp: field_def)
    then show ?thesis
      using assms timeouts_finite [OF valid enat, of rnd] valid enat
      by (auto simp: operation_def resolved_maxRetryTime_def new_RetryOperation_def
          split: option.splits jsnum.splits)
  qed
qed

lemma operation_retries_3: "operation retries_3 no_random = Some (Inr example_operation)"
proof -
  have h1: "js_le (Fin (field 1000 (minTimeout retries_3))) (field PInf (maxTimeout retries_3))"
    by (simp add: retries_3_def no_options_def field_def)
  have h2: "field 10 (retries retries_3) = enat 3"
    by (simp add: retries_3_def no_options_def field_def numeral_eq_enat)
  have "[0..<3] = [0, 1, 2]"
    by (simp add: upt_rec)
  then have "timeouts retries_3 no_random = Some (Inr [1000, 2000, 4000])"
    by (simp add: timeouts_finite [OF h1 h2] createTimeout_eq Math_round_def no_random_def)
       (simp add: retries_3_def no_options_def field_def)
  then show ?thesis
    by (simp add: operation_def example_operation_def)
       (simp add: retries_3_def no_options_def field_def)
qed

lemma budget_exceeded_iff:
  "budget_exceeded now this \<longleftrightarrow>
     (\<exists>t0. operationStart this = Some t0 \<and> t0 \<noteq> 0 \<and>
        js_ge (Fin (of_int (now - t0))) (this_maxRetryTime this))"
  by (auto simp: budget_exceeded_def truthy_def split: option.splits)

lemma example_started_eq:
  "example_started =
     (example_operation\<lparr>fn := Some 7, operationStart := Some 100\<rparr>,
      runtime0\<lparr>trace := [Call 7 1]\<rparr>)"
  by (simp add: example_started_def attempt_def example_operation_def new_RetryOperation_def
      runtime0_def Let_def)

lemma budget_exceeded_cong:
  "operationStart a = operationStart b \<Longrightarrow> this_maxRetryTime a = this_maxRetryTime b \<Longrightarrow>
   budget_exceeded now a = budget_exceeded now b"
  by (cases "operationStart b") (simp_all add: budget_exceeded_def)

lemma retry_returns:
  assumes "fn this = Some f" and "\<not> budget_exceeded now this"
  shows "fst (retry now err (this, rt)) =
    Inr (this_timeouts this \<noteq> [] \<or> cachedTimeouts this \<noteq> None)"
proof (cases "this_timeouts this")
  case (Cons t rest)
  then show ?thesis
    using retry_timeout [OF assms(2) Cons assms(1), of err rt] by auto
next
  case Nil
  show ?thesis
  proof (cases "cachedTimeouts this")
    case None
    then show ?thesis
      using Nil by (simp add: retry_exhausted [OF assms(2) Nil None])
  next
    case (Some c)
    then show ?thesis
      using Nil retry_forever [OF assms(2) Nil Some assms(1), of err rt] by auto
  qed
qed

lemma fst_retry_calls_Cons:
  "fst (retry_calls ((now, err) # calls) w) =
     fst (retry now err w) # fst (retry_calls calls (snd (retry now err w)))"
  by (simp split: prod.splits)

lemma retry_calls_not_forever:
  assumes "fn this = Some f" and "cachedTimeouts this = None"
    and "\<forall>c \<in> set calls. \<not> budget_exceeded (fst c) this"
  shows "fst (retry_calls calls (this, rt)) =
    map (\<lambda>i. Inr (i < length (this_timeouts this))) [0..<length calls]"
  using assms
proof (induction calls arbitrary: this rt)
  case Nil
  then show ?case by simp
next
  case (Cons c calls)
  obtain now err where c: "c = (now, err)" by (cases c)
  from Cons.prems c have nb: "\<not> budget_exceeded now this" by simp
  show ?case
  proof (cases "this_timeouts this")
    case Nil
    let ?obj' = "this\<lparr>errors := errors this @ [err]\<rparr>"
    have r: "retry now err (this, rt) = (Inr False, (?obj', cleared this rt))"
      by (rule retry_exhausted [OF nb Nil Cons.prems(2)])
    have "budget_exceeded n ?obj' = budget_exceeded n this" for n
      by (rule budget_exceeded_cong) simp_all
    then have "\<forall>c \<in> set calls. \<not> budget_exceeded (fst c) ?obj'"
      using Cons.prems(3) by simp
    then have "fst (retry_calls calls (?obj', cleared this rt)) =
        map (\<lambda>i. Inr (i < length (this_timeouts ?obj'))) [0..<length calls]"
      using Cons.prems(1,2) by (intro Cons.IH) simp_all
    then show ?thesis
      using Nil by (simp add: c r fst_retry_calls_Cons map_upt_Suc del: upt_Suc retry_calls.simps)
  next
    case (Cons t rest)
    from retry_timeout [OF nb Cons Cons.prems(1), of err rt]
    obtain rt' this' where r: "retry now err (this, rt) = (Inr True, (this', rt'))"
      and this': "this' = this\<lparr>errors := errors this @ [err], this_timeouts := rest,
          timer := Some (next_handle rt), attempts := attempts this + 1,
          timeout := Some (next_handle rt + 1)\<rparr>"
      by blast
    have "budget_exceeded n this' = budget_exceeded n this" for n
      by (rule budget_exceeded_cong) (simp_all add: this')
    then have "\<forall>c \<in> set calls. \<not> budget_exceeded (fst c) this'"
      using Cons.prems(3) by simp
    then have "fst (retry_calls calls (this', rt')) =
        map (\<lambda>i. Inr (i < length (this_timeouts this'))) [0..<length calls]"
      using Cons.prems(1,2) this' by (intro Cons.IH) simp_all
    then show ?thesis
      using Cons this' by (simp add: c r fst_retry_calls_Cons map_upt_Suc del: upt_Suc retry_calls.simps)
  qed
qed

lemma attempt_fields:
  "fn (fst (attempt f t now w)) = Some f \<and>
   operationStart (fst (attempt f t now w)) = Some now \<and>
   this_timeouts (fst (attempt f t now w)) = this_timeouts (fst w) \<and>
   cachedTimeouts (fst (attempt f t now w)) = cachedTimeouts (fst w)"
  by (cases w) (simp add: attempt_def Let_def split: option.splits prod.splits)

lemma retry_no_delay:
  assumes "this_timeouts this = []" and "cachedTimeouts this = None"
  shows "\<exists>es. retry now err (this, rt) = (Inr False, (this\<lparr>errors := es\<rparr>, cleared this rt))"
proof (cases "budget_exceeded now this")
  case True
  then have "retry now err (this, rt) =
      (Inr False, (this\<lparr>errors := timeout_error # (errors this @ [err])\<rparr>, cleared this rt))"
    by (rule retry_budget)
  then show ?thesis by blast
next
  case False
  then have "retry now err (this, rt) =
      (Inr False, (this\<lparr>errors := errors this @ [err]\<rparr>, cleared this rt))"
    using assms by (intro retry_exhausted)
  then show ?thesis by blast
qed

lemma invoke_stopped:
  assumes "c \<noteq> Reset" and "this_timeouts (fst w) = []" and "cachedTimeouts (fst w) = None"
  shows "this_timeouts (fst (invoke c w)) = [] \<and> cachedTimeouts (fst (invoke c w)) = None"
proof (cases c)
  case Reset
  with assms show ?thesis by simp
next
  case Stop
  then show ?thesis by (cases w) (simp add: stop_def Let_def)
next
  case (Attempt f t now)
  then show ?thesis using assms attempt_fields [of f t now w] by simp
next
  case Succeed
  then show ?thesis using assms by (cases w) (simp add: succeed_def)
next
  case (Retry now err)
  obtain this rt where w: "w = (this, rt)" by (cases w)
  with assms retry_no_delay [of this now err rt] Retry show ?thesis by auto
next
  case (Fire h)
  then show ?thesis
    using assms
    by (cases w)
       (simp add: fire_def run_closure_def split: option.splits prod.splits closure.splits)
qed

lemma run_stopped:
  assumes "Reset \<notin> set steps" and "this_timeouts (fst w) = []" and "cachedTimeouts (fst w) = None"
  shows "this_timeouts (fst (run steps w)) = [] \<and> cachedTimeouts (fst (run steps w)) = None"
  using assms
proof (induction steps arbitrary: w)
  case Nil
  then show ?case by simp
next
  case (Cons c steps)
  then have "this_timeouts (fst (invoke c w)) = [] \<and> cachedTimeouts (fst (invoke c w)) = None"
    by (intro invoke_stopped) auto
  with Cons show ?case by simp
qed

lemma retry_after_stop:
  assumes "Reset \<notin> set steps"
  shows "fst (retry now err (run steps (stop w))) = Inr False \<and>
    next_handle (snd (snd (retry now err (run steps (stop w))))) =
      next_handle (snd (run steps (stop w)))"
proof -
  obtain this rt where r: "run steps (stop w) = (this, rt)"
    by (cases "run steps (stop w)")
  have "this_timeouts (fst (stop w)) = [] \<and> cachedTimeouts (fst (stop w)) = None"
    by (cases w) (simp add: stop_def Let_def)
  with run_stopped [OF assms, of "stop w"] r
  have "this_timeouts this = []" "cachedTimeouts this = None"
    by simp_all
  from retry_no_delay [OF this, of now err rt] r show ?thesis
    by auto
qed

lemma example_started_fields:
  "fn (fst example_started) = Some 7 \<and> operationStart (fst example_started) = Some 100 \<and>
   this_maxRetryTime (fst example_started) = PInf"
  by (simp add: example_started_eq example_operation_def new_RetryOperation_def)

lemma budget_exceeded_PInf: "this_maxRetryTime this = PInf \<Longrightarrow> \<not> budget_exceeded now this"
  by (simp add: budget_exceeded_iff)

lemma operation_forever_nonempty:
  assumes "operation opts rnd = Some (Inr this0)" and "options_forever this0"
  shows "cachedTimeouts this0 = Some (originalTimeouts this0) \<and> originalTimeouts this0 \<noteq> []"
proof -
  from operation_result [OF assms(1)] obtain n where
    this0: "this0 = new_RetryOperation
      (sort (map (\<lambda>i. createTimeout i opts (rnd i))
               (if field False (forever opts) \<and> n = 0 then [0] else [0..<n])))
      (field False (forever opts)) (resolved_maxRetryTime opts)"
    by blast
  have f: "field False (forever opts)"
    using assms(2) by (subst (asm) this0) (simp add: new_RetryOperation_def)
  have "length (originalTimeouts this0) = (if n = 0 then 1 else n)"
    using f by (subst this0) (simp add: new_RetryOperation_def)
  then have "originalTimeouts this0 \<noteq> []"
    by (auto split: if_splits)
  moreover have "cachedTimeouts this0 = Some (originalTimeouts this0)"
    using f by (subst (1 2) this0) (simp add: new_RetryOperation_def)
  ultimately show ?thesis by simp
qed

lemma operation_forever_1: "operation forever_1 no_random = Some (Inr forever_1_operation)"
proof -
  have h1: "js_le (Fin (field 1000 (minTimeout forever_1))) (field PInf (maxTimeout forever_1))"
    by (simp add: forever_1_def no_options_def field_def)
  have h2: "field 10 (retries forever_1) = enat 1"
    by (simp add: forever_1_def no_options_def field_def one_enat_def)
  have "timeouts forever_1 no_random = Some (Inr [1000])"
    by (simp add: timeouts_finite [OF h1 h2] createTimeout_eq Math_round_def no_random_def)
       (simp add: forever_1_def no_options_def field_def)
  then show ?thesis
    by (simp add: operation_def forever_1_operation_def)
       (simp add: forever_1_def no_options_def field_def)
qed

lemmas world_defs =
  new_RetryOperation_def runtime0_def attempt_def retry_def retry_begin_def retry_resume_def
  fire_def run_closure_def setTimeout_def clearTimeout_def budget_exceeded_def truthy_def
  last_or_undefined_def Let_def





text \<open>
  C1. For an operation that holds a work function and is within its wall-clock budget,
  \<^verbatim>\<open>retry\<close> returns \<open>true\<close> exactly when a delay is available: a timeout remains in
  \<^verbatim>\<open>timeouts\<close> or \<^verbatim>\<open>cachedTimeouts\<close> is defined. With \<open>retries = 3\<close> and not forever,
  the first three calls of \<^verbatim>\<open>retry\<close> after \<^verbatim>\<open>attempt\<close> return \<open>true\<close> and the fourth
  returns \<open>false\<close>. After \<^verbatim>\<open>stop\<close>, whatever is done with the operation short of
  \<^verbatim>\<open>reset\<close>, every call of \<^verbatim>\<open>retry\<close> returns \<open>false\<close> and schedules no timer.
\<close>

theorem retry_true_iff_delay_available:
  "(fn this \<noteq> None \<and> \<not> budget_exceeded now this \<longrightarrow>
      fst (retry now err (this, rt)) =
        Inr (this_timeouts this \<noteq> [] \<or> cachedTimeouts this \<noteq> None)) \<and>
   (operation opts rnd = Some (Inr this0) \<and> retries opts = Some 3 \<and> forever opts \<noteq> Some True \<and>
    (\<forall>c \<in> set [c1, c2, c3, c4].
        \<not> budget_exceeded (fst c) (fst (attempt f t now0 (this0, runtime0)))) \<longrightarrow>
      fst (retry_calls [c1, c2, c3, c4] (attempt f t now0 (this0, runtime0))) =
        [Inr True, Inr True, Inr True, Inr False]) \<and>
   (Reset \<notin> set steps \<longrightarrow>
      fst (retry now' err' (run steps (stop w))) = Inr False \<and>
      next_handle (snd (snd (retry now' err' (run steps (stop w))))) =
        next_handle (snd (run steps (stop w))))"
proof -
  have one: "fst (retry now err (this, rt)) =
        Inr (this_timeouts this \<noteq> [] \<or> cachedTimeouts this \<noteq> None)"
    if "fn this \<noteq> None" and "\<not> budget_exceeded now this"
    using that retry_returns [of this _ now err rt] by auto
  have two: "fst (retry_calls [c1, c2, c3, c4] (attempt f t now0 (this0, runtime0))) =
        [Inr True, Inr True, Inr True, Inr False]"
    if op: "operation opts rnd = Some (Inr this0)" and r: "retries opts = Some 3"
      and nf: "forever opts \<noteq> Some True"
      and nb: "\<forall>c \<in> set [c1, c2, c3, c4].
        \<not> budget_exceeded (fst c) (fst (attempt f t now0 (this0, runtime0)))"
  proof -
    obtain this1 rt1 where w1: "attempt f t now0 (this0, runtime0) = (this1, rt1)"
      by (cases "attempt f t now0 (this0, runtime0)")
    from nf have f: "field False (forever opts) = False"
      by (cases "forever opts") (auto simp: field_def)
    from r have "field 10 (retries opts) = enat 3"
      by (simp add: field_def numeral_eq_enat)
    with operation_result [OF op] f
    have len: "length (this_timeouts this0) = 3" and c: "cachedTimeouts this0 = None"
      by (auto simp: new_RetryOperation_def)
    have "fn this1 = Some f" "cachedTimeouts this1 = None" "length (this_timeouts this1) = 3"
      using attempt_fields [of f t now0 "(this0, runtime0)"] w1 len c by simp_all
    moreover have "\<forall>c \<in> set [c1, c2, c3, c4]. \<not> budget_exceeded (fst c) this1"
      using nb w1 by simp
    ultimately have "fst (retry_calls [c1, c2, c3, c4] (this1, rt1)) =
        map (\<lambda>i. Inr (i < 3)) [0..<length [c1, c2, c3, c4]]"
      using retry_calls_not_forever [of this1 f "[c1, c2, c3, c4]" rt1] by simp
    moreover have "[0..<4] = [0, 1, 2, 3]"
      by (simp add: upt_rec)
    ultimately show ?thesis
      using w1 by simp
  qed
  have three: "fst (retry now' err' (run steps (stop w))) = Inr False \<and>
      next_handle (snd (snd (retry now' err' (run steps (stop w))))) =
        next_handle (snd (run steps (stop w)))"
    if "Reset \<notin> set steps"
    using that by (rule retry_after_stop)
  from one two three show ?thesis by blast
qed

text \<open>
  The hypotheses of C1 hold for \<^verbatim>\<open>operation({retries: 3})\<close>, started at clock reading 100.
\<close>

theorem retry_true_iff_delay_available_witness:
  "fn (fst example_started) \<noteq> None \<and> \<not> budget_exceeded 200 (fst example_started) \<and>
   fst (retry 200 err_A example_started) = Inr True \<and>
   operation retries_3 no_random = Some (Inr example_operation) \<and>
   retries retries_3 = Some 3 \<and> forever retries_3 \<noteq> Some True \<and>
   \<not> budget_exceeded 200 (fst (attempt 7 None 100 (example_operation, runtime0))) \<and>
   \<not> budget_exceeded 300 (fst (attempt 7 None 100 (example_operation, runtime0))) \<and>
   \<not> budget_exceeded 400 (fst (attempt 7 None 100 (example_operation, runtime0))) \<and>
   \<not> budget_exceeded 500 (fst (attempt 7 None 100 (example_operation, runtime0))) \<and>
   fst (retry_calls [(200, err_A), (300, err_B), (400, err_A), (500, err_B)]
          (attempt 7 None 100 (example_operation, runtime0))) =
     [Inr True, Inr True, Inr True, Inr False] \<and>
   Reset \<notin> set [Succeed, Retry 300 err_B] \<and>
   fst (retry 400 err_A (run [Succeed, Retry 300 err_B] (stop example_retried))) = Inr False"
proof -
  have h1: "fn (fst example_started) \<noteq> None"
    by (simp add: example_started_fields)
  have h2: "\<not> budget_exceeded n (fst example_started)" for n
    by (simp add: budget_exceeded_PInf example_started_fields)
  have h3: "operation retries_3 no_random = Some (Inr example_operation)"
    by (rule operation_retries_3)
  have h4: "retries retries_3 = Some 3" "forever retries_3 \<noteq> Some True"
    by (simp_all add: retries_3_def no_options_def)
  have h5: "\<forall>c \<in> set [(200, err_A), (300, err_B), (400, err_A), (500, err_B)].
      \<not> budget_exceeded (fst c) (fst (attempt 7 None 100 (example_operation, runtime0)))"
    using h2 by (simp add: example_started_def)
  have t: "this_timeouts (fst example_started) \<noteq> []"
    by (simp add: example_started_eq example_operation_def new_RetryOperation_def)
  show ?thesis
    using h1 h2 [of 200] h3 h4 h5 t
      retry_true_iff_delay_available [where this = "fst example_started" and now = 200
        and err = err_A and rt = "snd example_started" and opts = retries_3
        and rnd = no_random and ?this0.0 = example_operation
        and ?c1.0 = "(200, err_A)" and ?c2.0 = "(300, err_B)" and ?c3.0 = "(400, err_A)"
        and ?c4.0 = "(500, err_B)" and f = 7 and t = None and ?now0.0 = 100
        and steps = "[Succeed, Retry 300 err_B]" and now' = 400 and err' = err_A
        and w = example_retried]
    by simp
qed

text \<open>
  C2. When \<^verbatim>\<open>retry(err)\<close> is called on an operation whose start time is recorded (a
  clock reading other than 0) and the elapsed time is at least \<^verbatim>\<open>maxRetryTime\<close>, the call
  returns \<open>false\<close>, the errors are the old ones with \<open>err\<close> appended and the timeout
  marker in front, at index 0, and this is so whatever timeouts remain: they are left as they
  are and no timer is scheduled.
\<close>

theorem retry_budget_exceeded:
  assumes "operationStart this = Some t0" and "t0 \<noteq> 0"
    and "js_ge (Fin (of_int (now - t0))) (this_maxRetryTime this)"
  shows "fst (retry now err (this, rt)) = Inr False \<and>
    errors (fst (snd (retry now err (this, rt)))) = timeout_error # errors this @ [err] \<and>
    message (errors (fst (snd (retry now err (this, rt)))) ! 0) =
      ''RetryOperation timeout occurred'' \<and>
    this_timeouts (fst (snd (retry now err (this, rt)))) = this_timeouts this \<and>
    next_handle (snd (snd (retry now err (this, rt)))) = next_handle rt"
proof -
  have "budget_exceeded now this"
    using assms by (auto simp: budget_exceeded_iff)
  then show ?thesis
    by (simp add: retry_budget timeout_error_def)
qed

text \<open>
  The hypotheses of C2 hold for a budget of 500 ms, a start at 100 and a retry at 600, with
  three timeouts remaining.
\<close>

theorem retry_budget_exceeded_witness:
  "operationStart (fst budget_500_started) = Some 100 \<and> (100::int) \<noteq> 0 \<and>
   js_ge (Fin (of_int (600 - 100))) (this_maxRetryTime (fst budget_500_started)) \<and>
   this_timeouts (fst budget_500_started) = [1000, 2000, 4000] \<and>
   fst (retry 600 err_A budget_500_started) = Inr False \<and>
   errors (fst (snd (retry 600 err_A budget_500_started))) = [timeout_error, err_A]"
proof -
  have h1: "operationStart (fst budget_500_started) = Some 100"
    by (simp add: budget_500_started_def budget_500_operation_def attempt_def
        new_RetryOperation_def Let_def)
  have h2: "(100::int) \<noteq> 0" by simp
  have h3: "js_ge (Fin (of_int (600 - 100))) (this_maxRetryTime (fst budget_500_started))"
    by (simp add: budget_500_started_def budget_500_operation_def attempt_def
        new_RetryOperation_def Let_def)
  have e: "errors (fst budget_500_started) = []"
    by (simp add: budget_500_started_def budget_500_operation_def attempt_def
        new_RetryOperation_def Let_def)
  have t: "this_timeouts (fst budget_500_started) = [1000, 2000, 4000]"
    by (simp add: budget_500_started_def budget_500_operation_def attempt_def
        new_RetryOperation_def Let_def)
  show ?thesis
    using h1 h3 e t
      retry_budget_exceeded [OF h1 h2 h3, of err_A "snd budget_500_started"]
    by simp
qed

text \<open>
  C3. In forever mode, in a state that the operation reaches without \<^verbatim>\<open>stop\<close>, once
  \<^verbatim>\<open>timeouts\<close> is used up, a call of \<^verbatim>\<open>retry(err)\<close> within the budget returns \<open>true\<close>,
  waits for the last entry of the original timeout sequence, and leaves \<open>err\<close> as the only
  recorded error; the state after the call is again such a state, so the same holds for every
  later call.
\<close>

theorem retry_forever_mode:
  assumes "operation opts rnd = Some (Inr this0)" and "options_forever this0"
    and "Stop \<notin> set steps" and "run steps (this0, runtime0) = (this, rt)"
    and "this_timeouts this = []" and "\<not> budget_exceeded now this" and "fn this \<noteq> None"
  shows "fst (retry now err (this, rt)) = Inr True \<and>
    originalTimeouts this \<noteq> [] \<and>
    (\<exists>this1 rt1. retry_begin now err (this, rt) = (Await (next_handle rt), (this1, rt1)) \<and>
       pending rt1 (next_handle rt) = Some (Resolve, Some (last (originalTimeouts this)))) \<and>
    errors (fst (snd (retry now err (this, rt)))) = [err] \<and>
    this_timeouts (fst (snd (retry now err (this, rt)))) = [] \<and>
    snd (retry now err (this, rt)) = run (steps @ [Retry now err]) (this0, runtime0)"
proof -
  have "keeps_configuration (this0, runtime0) (this, rt)"
    using run_keeps [OF assms(3), of "(this0, runtime0)"] assms(4) by simp
  then have c: "cachedTimeouts this = Some (originalTimeouts this)"
    and ne: "originalTimeouts this \<noteq> []"
    using operation_forever_nonempty [OF assms(1,2)]
    by (simp_all add: keeps_configuration_def keeps_snapshot_def)
  obtain f where f: "fn this = Some f"
    using assms(7) by auto
  obtain rt' where r: "retry now err (this, rt) =
      (Inr True, (this\<lparr>errors := [err], timer := Some (next_handle rt),
         attempts := attempts this + 1, timeout := Some (next_handle rt + 1)\<rparr>, rt'))"
    using retry_forever [OF assms(6,5) c f, of err rt] by blast
  have b: "\<exists>this1 rt1. retry_begin now err (this, rt) = (Await (next_handle rt), (this1, rt1)) \<and>
       pending rt1 (next_handle rt) = Some (Resolve, Some (last (originalTimeouts this)))"
    using ne
    by (simp add: retry_begin_forever [OF assms(6,5) c] setTimeout_def last_or_undefined_def)
  have "run (steps @ [Retry now err]) (this0, runtime0) = snd (retry now err (this, rt))"
    using assms(4) by (simp add: run_def)
  with r ne b assms(5) show ?thesis by simp
qed

text \<open>
  The hypotheses of C3 hold for \<^verbatim>\<open>operation({retries: 1, forever: true})\<close> after
  \<^verbatim>\<open>attempt\<close> and one \<^verbatim>\<open>retry\<close>.
\<close>

theorem retry_forever_mode_witness:
  "operation forever_1 no_random = Some (Inr forever_1_operation) \<and>
   options_forever forever_1_operation \<and>
   Stop \<notin> set [Attempt 7 None 100, Retry 200 err_A] \<and>
   this_timeouts (fst (run [Attempt 7 None 100, Retry 200 err_A]
                         (forever_1_operation, runtime0))) = [] \<and>
   \<not> budget_exceeded 300 (fst (run [Attempt 7 None 100, Retry 200 err_A]
                                  (forever_1_operation, runtime0))) \<and>
   fn (fst (run [Attempt 7 None 100, Retry 200 err_A] (forever_1_operation, runtime0))) \<noteq> None \<and>
   fst (retry 300 err_B (run [Attempt 7 None 100, Retry 200 err_A]
                           (forever_1_operation, runtime0))) = Inr True \<and>
   errors (fst (snd (retry 300 err_B (run [Attempt 7 None 100, Retry 200 err_A]
                                        (forever_1_operation, runtime0))))) = [err_B] \<and>
   last (originalTimeouts (fst (run [Attempt 7 None 100, Retry 200 err_A]
                                  (forever_1_operation, runtime0)))) = 1000"
proof -
  let ?w = "run [Attempt 7 None 100, Retry 200 err_A] (forever_1_operation, runtime0)"
  have h1: "operation forever_1 no_random = Some (Inr forever_1_operation)"
    by (rule operation_forever_1)
  have h2: "options_forever forever_1_operation"
    by (simp add: forever_1_operation_def new_RetryOperation_def)
  have h3: "Stop \<notin> set [Attempt 7 None 100, Retry 200 err_A]"
    by simp
  have h4: "run [Attempt 7 None 100, Retry 200 err_A] (forever_1_operation, runtime0) =
      (fst ?w, snd ?w)"
    by simp
  have h5: "this_timeouts (fst ?w) = []"
    by (simp add: forever_1_operation_def world_defs)
  have h6: "\<not> budget_exceeded 300 (fst ?w)"
    by (simp add: forever_1_operation_def world_defs)
  have h7: "fn (fst ?w) \<noteq> None"
    by (simp add: forever_1_operation_def world_defs)
  have o: "last (originalTimeouts (fst ?w)) = 1000"
    by (simp add: forever_1_operation_def world_defs)
  show ?thesis
    using h1 h2 h3 h5 h6 h7 o retry_forever_mode [OF h1 h2 h3 h4 h5 h6 h7, of err_B]
    by simp
qed

text \<open>
  C7 fails on the code. \<^verbatim>\<open>attempt(fn)\<close> without \<^verbatim>\<open>timeoutOptions\<close> configures no
  watchdog, and still the next \<^verbatim>\<open>retry\<close> that returns \<open>true\<close> schedules a watchdog timer,
  with the delay \<^verbatim>\<open>undefined\<close>; when it fires, its closure calls the undefined
  \<^verbatim>\<open>operationTimeoutFn\<close> and throws a \<^verbatim>\<open>TypeError\<close>.
\<close>

theorem retry_schedules_undefined_watchdog:
  "operationTimeoutFn (fst example_started) = None \<and>
   operationTimeout (fst example_started) = None \<and>
   fst (retry 200 err_A example_started) = Inr True \<and>
   timeout (fst (snd (retry 200 err_A example_started))) = Some 2 \<and>
   pending (snd (snd (retry 200 err_A example_started))) 2 = Some (RetryWatchdog, None) \<and>
   fst (fire 2 (snd (retry 200 err_A example_started))) = Some Throw_TypeError"
  by (simp add: example_started_eq example_operation_def new_RetryOperation_def runtime0_def
      retry_def retry_begin_def budget_exceeded_def truthy_def setTimeout_def fire_def
      run_closure_def clearTimeout_def retry_resume_def Let_def)

text \<open>
  C8 as stated fails: while \<^verbatim>\<open>retry\<close> waits, its backoff timer (handle 1) is pending,
  and it is still pending after \<^verbatim>\<open>succeed\<close>.
\<close>

theorem succeed_keeps_retry_timer_counterexample:
  "timer (fst example_suspended) = Some 1 \<and>
   pending (snd example_suspended) 1 = Some (Resolve, Some 1000) \<and>
   pending (snd (succeed example_suspended)) 1 = Some (Resolve, Some 1000)"
  by (simp add: example_suspended_def example_started_eq example_operation_def
      new_RetryOperation_def runtime0_def retry_begin_def budget_exceeded_def truthy_def
      setTimeout_def clearTimeout_def succeed_def Let_def)

text \<open>
  C8, as amended. \<^verbatim>\<open>succeed\<close> cancels the timer whose handle is in \<^verbatim>\<open>timeout\<close> (the
  watchdog that \<^verbatim>\<open>retry\<close> scheduled) and changes nothing else: every field of the
  operation, so \<^verbatim>\<open>attempts\<close>, \<^verbatim>\<open>errors\<close>, \<^verbatim>\<open>timeouts\<close> and \<^verbatim>\<open>originalTimeouts\<close>,
  is as before, and every other timer, the backoff timer among them, stays pending.
\<close>

theorem succeed_effect:
  "fst (succeed (this, rt)) = this \<and>
   next_handle (snd (succeed (this, rt))) = next_handle rt \<and>
   trace (snd (succeed (this, rt))) = trace rt \<and>
   (timeout this = Some h \<longrightarrow> pending (snd (succeed (this, rt))) h = None) \<and>
   (timeout this \<noteq> Some h \<longrightarrow> pending (snd (succeed (this, rt))) h = pending rt h)"
  by (simp add: succeed_def clearTimeout_def split: option.splits)

text \<open>
  The hypotheses of C8 hold after a first \<^verbatim>\<open>retry\<close> (watchdog 2 pending) and in the
  middle of one (backoff timer 1 pending).
\<close>

theorem succeed_effect_witness:
  "timeout (fst example_retried) = Some 2 \<and>
   pending (snd example_retried) 2 = Some (RetryWatchdog, None) \<and>
   pending (snd (succeed example_retried)) 2 = None \<and>
   timeout (fst example_suspended) \<noteq> Some 1 \<and>
   pending (snd (succeed example_suspended)) 1 = Some (Resolve, Some 1000)"
proof -
  have h1: "timeout (fst example_retried) = Some 2"
    by (simp add: example_retried_def example_started_eq example_operation_def world_defs)
  have p1: "pending (snd example_retried) 2 = Some (RetryWatchdog, None)"
    by (simp add: example_retried_def example_started_eq example_operation_def world_defs)
  have h2: "timeout (fst example_suspended) \<noteq> Some 1"
    by (simp add: example_suspended_def example_started_eq example_operation_def world_defs)
  have p2: "pending (snd example_suspended) 1 = Some (Resolve, Some 1000)"
    by (simp add: example_suspended_def example_started_eq example_operation_def world_defs)
  show ?thesis
    using h1 p1 h2 p2
      succeed_effect [of "fst example_retried" "snd example_retried" 2]
      succeed_effect [of "fst example_suspended" "snd example_suspended" 1]
    by simp
qed

text \<open>
  C9. In every state, \<^verbatim>\<open>reset\<close> sets \<^verbatim>\<open>attempts\<close> to 1 and \<^verbatim>\<open>timeouts\<close> to the
  original sequence and leaves \<^verbatim>\<open>errors\<close> and \<^verbatim>\<open>originalTimeouts\<close> as they are; in a
  state reached from \<^verbatim>\<open>operation(opts)\<close> the restored sequence is the one that
  \<^verbatim>\<open>timeouts(opts)\<close> generated.
\<close>

theorem reset_restores:
  "attempts (fst (reset w)) = 1 \<and>
   this_timeouts (fst (reset w)) = originalTimeouts (fst w) \<and>
   errors (fst (reset w)) = errors (fst w) \<and>
   originalTimeouts (fst (reset w)) = originalTimeouts (fst w) \<and>
   (operation opts rnd = Some (Inr this0) \<and> w = run steps (this0, runtime0) \<longrightarrow>
      timeouts opts rnd = Some (Inr (this_timeouts (fst (reset w)))))"
proof -
  have frame: "attempts (fst (reset w)) = 1 \<and>
      this_timeouts (fst (reset w)) = originalTimeouts (fst w) \<and>
      errors (fst (reset w)) = errors (fst w) \<and>
      originalTimeouts (fst (reset w)) = originalTimeouts (fst w)"
    by (cases w) (simp add: reset_def)
  have "timeouts opts rnd = Some (Inr (this_timeouts (fst (reset w))))"
    if op: "operation opts rnd = Some (Inr this0)" and w: "w = run steps (this0, runtime0)"
  proof -
    have "originalTimeouts (fst w) = originalTimeouts this0"
      using run_keeps_snapshot [of "(this0, runtime0)" steps] w by (simp add: keeps_snapshot_def)
    then show ?thesis
      using operation_result [OF op] frame by auto
  qed
  with frame show ?thesis by blast
qed

text \<open>
  The hypothesis of C9 holds for \<^verbatim>\<open>operation({retries: 3})\<close> after \<^verbatim>\<open>attempt\<close> and one
  \<^verbatim>\<open>retry\<close>.
\<close>

theorem reset_restores_witness:
  "operation retries_3 no_random = Some (Inr example_operation) \<and>
   timeouts retries_3 no_random =
     Some (Inr (this_timeouts (fst (reset (run [Attempt 7 None 100, Retry 200 err_A]
                                              (example_operation, runtime0))))))"
  using operation_retries_3
    reset_restores [of "run [Attempt 7 None 100, Retry 200 err_A] (example_operation, runtime0)"
      retries_3 no_random example_operation "[Attempt 7 None 100, Retry 200 err_A]"]
  by simp




section \<open>Properties of the main error\<close>

lemma occurrences_append [simp]:
  "occurrences m (es @ [e]) = occurrences m es + (if message e = m then 1 else 0)"
  by (simp add: occurrences_def)

lemma occurrences_Nil [simp]: "occurrences m [] = 0"
  by (simp add: occurrences_def)

lemma occurrences_le_highest: "e \<in> set es \<Longrightarrow> occurrences (message e) es \<le> highest_count es"
  by (simp add: highest_count_def)

lemma highest_count_attained:
  "es \<noteq> [] \<Longrightarrow> \<exists>e \<in> set es. occurrences (message e) es = highest_count es"
proof -
  assume ne: "es \<noteq> []"
  let ?S = "set (0 # map (\<lambda>e. occurrences (message e) es) es)"
  have "Max ?S \<in> ?S" by (intro Max_in) auto
  then have "highest_count es = 0 \<or> (\<exists>e \<in> set es. occurrences (message e) es = highest_count es)"
    by (auto simp: highest_count_def)
  moreover have "0 < occurrences (message (hd es)) es"
    using ne by (cases es) (auto simp: occurrences_def)
  then have "0 < highest_count es"
    using occurrences_le_highest [of "hd es" es] ne by (cases es) auto
  ultimately show ?thesis by auto
qed

lemma highest_countI:
  assumes "\<And>e. e \<in> set es \<Longrightarrow> occurrences (message e) es \<le> n"
    and "\<exists>e \<in> set es. occurrences (message e) es = n"
  shows "highest_count es = n"
proof -
  let ?S = "set (0 # map (\<lambda>e. occurrences (message e) es) es)"
  have "Max ?S = n"
  proof (rule Max_eqI)
    show "finite ?S" by simp
    show "y \<le> n" if "y \<in> ?S" for y using that assms(1) by auto
    show "n \<in> ?S" using assms(2) by auto
  qed
  then show ?thesis by (simp add: highest_count_def)
qed

lemma highest_count_new_top:
  assumes "highest_count pre \<le> Suc (occurrences (message e) pre)"
  shows "highest_count (pre @ [e]) = Suc (occurrences (message e) pre)"
proof (rule highest_countI)
  fix x assume "x \<in> set (pre @ [e])"
  then show "occurrences (message x) (pre @ [e]) \<le> Suc (occurrences (message e) pre)"
    using assms occurrences_le_highest [of x pre] by auto
next
  show "\<exists>x \<in> set (pre @ [e]). occurrences (message x) (pre @ [e]) = Suc (occurrences (message e) pre)"
    by auto
qed

lemma mainError_spec_new_top:
  assumes "highest_count pre \<le> Suc (occurrences (message e) pre)"
  shows "mainError_spec (pre @ [e]) = Some e"
  by (simp add: mainError_spec_def highest_count_new_top [OF assms])

lemma highest_count_below:
  assumes "Suc (occurrences (message e) pre) < highest_count pre"
  shows "highest_count (pre @ [e]) = highest_count pre"
proof (rule highest_countI)
  fix x assume "x \<in> set (pre @ [e])"
  then show "occurrences (message x) (pre @ [e]) \<le> highest_count pre"
    using assms occurrences_le_highest [of x pre] by auto
next
  from assms have "pre \<noteq> []"
    by (auto simp: highest_count_def)
  then obtain x where x: "x \<in> set pre" "occurrences (message x) pre = highest_count pre"
    using highest_count_attained by blast
  with assms have "message x \<noteq> message e" by auto
  with x have "x \<in> set (pre @ [e])" "occurrences (message x) (pre @ [e]) = highest_count pre"
    by auto
  then show "\<exists>x \<in> set (pre @ [e]). occurrences (message x) (pre @ [e]) = highest_count pre"
    by (rule bexI [rotated])
qed

lemma mainError_spec_below:
  assumes "Suc (occurrences (message e) pre) < highest_count pre"
  shows "mainError_spec (pre @ [e]) = mainError_spec pre"
proof -
  from assms have ne: "pre \<noteq> []"
    by (auto simp: highest_count_def)
  have "filter (\<lambda>x. occurrences (message x) (pre @ [e]) = highest_count pre) pre =
      filter (\<lambda>x. occurrences (message x) pre = highest_count pre) pre"
    using assms by (intro filter_cong) auto
  then show ?thesis
    using assms ne by (simp add: mainError_spec_def highest_count_below [OF assms])
qed

lemma counts_of_step:
  assumes "message e \<notin> set Object_prototype_keys"
  shows "or_zero_plus_one (get_property (counts_of pre) (message e)) =
           Number (Suc (occurrences (message e) pre))"
    and "set_property (counts_of pre) (message e) (Number (Suc (occurrences (message e) pre))) =
           counts_of (pre @ [e])"
proof -
  show "or_zero_plus_one (get_property (counts_of pre) (message e)) =
           Number (Suc (occurrences (message e) pre))"
    using assms by (simp add: or_zero_plus_one_def get_property_def counts_of_def)
  show "set_property (counts_of pre) (message e) (Number (Suc (occurrences (message e) pre))) =
           counts_of (pre @ [e])"
    by (auto simp: set_property_def counts_of_def fun_eq_iff)
qed

text \<open>
  The invariant of the loop: after the errors \<open>pre\<close>, \<^verbatim>\<open>counts\<close> holds their counts,
  \<^verbatim>\<open>mainErrorCount\<close> the highest of them and \<^verbatim>\<open>mainError\<close> the main error of \<open>pre\<close>.
\<close>

lemma getMainError_loop_spec:
  assumes "\<forall>e \<in> set es. message e \<notin> set Object_prototype_keys"
  shows "getMainError_loop es (counts_of pre) (mainError_spec pre) (highest_count pre) =
    mainError_spec (pre @ es)"
  using assms
proof (induction es arbitrary: pre)
  case Nil
  then show ?case by simp
next
  case (Cons e es)
  then have key: "message e \<notin> set Object_prototype_keys"
    and rest: "\<forall>e \<in> set es. message e \<notin> set Object_prototype_keys"
    by simp_all
  have ih: "getMainError_loop es (counts_of (pre @ [e])) (mainError_spec (pre @ [e]))
      (highest_count (pre @ [e])) = mainError_spec (pre @ e # es)"
    using Cons.IH [OF rest, of "pre @ [e]"] by simp
  show ?case
  proof (cases "highest_count pre \<le> Suc (occurrences (message e) pre)")
    case True
    then show ?thesis
      using ih
      by (simp add: counts_of_step [OF key] ge_number_def Let_def
          highest_count_new_top mainError_spec_new_top)
  next
    case False
    then have "Suc (occurrences (message e) pre) < highest_count pre" by simp
    then show ?thesis
      using ih False
      by (simp add: counts_of_step [OF key] ge_number_def Let_def
          highest_count_below mainError_spec_below)
  qed
qed

text \<open>
  Where no message names a member of \<^verbatim>\<open>Object.prototype\<close>, \<^verbatim>\<open>getMainError\<close> returns
  what the specification says.
\<close>

lemma getMainError_spec:
  assumes "\<forall>e \<in> set (errors this). message e \<notin> set Object_prototype_keys"
  shows "getMainError this = mainError_spec (errors this)"
proof -
  have "counts_of [] = Map.empty"
    by (simp add: counts_of_def fun_eq_iff)
  moreover have "mainError_spec [] = None" "highest_count [] = 0"
    by (simp_all add: mainError_spec_def highest_count_def)
  ultimately show ?thesis
    using getMainError_loop_spec [OF assms, of "[]"] by (simp add: getMainError_def)
qed

lemmas getMainError_defs =
  getMainError_def get_property_def set_property_def or_zero_plus_one_def ge_number_def
  Object_prototype_keys_def with_errors_def

lemma getMainError_ABACB: "getMainError (with_errors errors_ABACB) = Some (error.Error ''B'' 5)"
  by (simp add: getMainError_defs errors_ABACB_def)

lemma getMainError_no_errors: "getMainError (with_errors []) = None"
  by (simp add: getMainError_defs)

text \<open>
  C6 fails on the code. For the single recorded error with the message
  \<^verbatim>\<open>"constructor"\<close>, the most frequent message is that one and the error to return is
  that error, but \<^verbatim>\<open>getMainError\<close> returns nothing: \<^verbatim>\<open>counts["constructor"]\<close> is the
  function inherited from \<^verbatim>\<open>Object.prototype\<close>, the count becomes a string and
  \<^verbatim>\<open>count >= mainErrorCount\<close> is false. Next to an error \<open>A\<close> seen once, two such errors
  lose to \<open>A\<close>.
\<close>

theorem getMainError_inherited_message:
  "mainError_spec [err_constructor] = Some err_constructor \<and>
   getMainError (with_errors [err_constructor]) = None \<and>
   mainError_spec [err_A, err_constructor, err_constructor] = Some err_constructor \<and>
   getMainError (with_errors [err_A, err_constructor, err_constructor]) = Some err_A"
  by (simp add: getMainError_defs mainError_spec_def highest_count_def occurrences_def
      err_constructor_def err_A_def)

end
